theory Spec2Isabelle
  imports Main "HOL-Library.Word"
begin

unbundle bit_operations_syntax

section \<open>Memory, faults and the allocator state\<close>

text \<open>
  The allocator of \<^verbatim>\<open>src/alloc.c\<close> works on raw memory: headers and free-list nodes are
  overlaid on the same bytes and linked by addresses. The model keeps that: memory is a
  function from 64-bit addresses to bytes, multi-byte fields are read and written in
  little-endian order, and pointer arithmetic is arithmetic on \<open>64 word\<close> (it wraps).
\<close>

type_synonym addr = "64 word"
type_synonym byte = "8 word"

text \<open>
  What stops a run without a return value: an access outside the region obtained from the
  operating system (the null pointer is outside it unless the heap starts at address 0),
  the \<^verbatim>\<open>abort()\<close> of \<^verbatim>\<open>tufree\<close>, and a \<^verbatim>\<open>memcpy\<close> on overlapping ranges (undefined
  in C).
\<close>

datatype fault = SegFault addr | Aborted | Undefined

text \<open>
  A run yields \<open>None\<close> when a loop never ends, \<open>Some (Inl f)\<close> when it stops with a fault
  and \<open>Some (Inr x)\<close> when it returns \<open>x\<close>.
\<close>

type_synonym 'a res = "(fault + 'a) option"

abbreviation Ok :: "'a \<Rightarrow> 'a res" where
  "Ok x \<equiv> Some (Inr x)"

abbreviation Fault :: "fault \<Rightarrow> 'a res" where
  "Fault e \<equiv> Some (Inl e)"

abbreviation rbind :: "'a res \<Rightarrow> ('a \<Rightarrow> 'b res) \<Rightarrow> 'b res" where
  "rbind m f \<equiv> Option.bind m (\<lambda>r. case r of Inl e \<Rightarrow> Some (Inl e) | Inr x \<Rightarrow> f x)"

text \<open>
  The process-wide state: the bytes of memory, the global \<^verbatim>\<open>HEAD\<close> of the free list
  (line 12), and the region of the operating system: where the heap started, the current
  program break and the highest break the system will grant.
\<close>

record astate =
  mem :: "addr \<Rightarrow> byte"
  HEAD :: addr
  heap_start :: addr
  brk :: addr
  heap_limit :: addr

text \<open>
  An access is let through when all its bytes lie between the start of the heap and the
  program break. This is strict: a real process also lets through an access above the
  break as long as it stays in a mapped page. Every run the theorems below report as
  returning stays inside the region, and the faults they report are at the addresses 0 and
  \<open>0xFFFFFFFFFFFFFFF8\<close>, outside every mapping.
\<close>

definition in_heap :: "astate \<Rightarrow> addr \<Rightarrow> nat \<Rightarrow> bool" where
  "in_heap st a n \<longleftrightarrow> unat (heap_start st) \<le> unat a \<and> unat a + n \<le> unat (brk st)"

definition rd64 :: "(addr \<Rightarrow> byte) \<Rightarrow> addr \<Rightarrow> 64 word" where
  "rd64 m a = ucast (m a) OR push_bit 8 (ucast (m (a + 1))) OR push_bit 16 (ucast (m (a + 2)))
     OR push_bit 24 (ucast (m (a + 3))) OR push_bit 32 (ucast (m (a + 4)))
     OR push_bit 40 (ucast (m (a + 5))) OR push_bit 48 (ucast (m (a + 6)))
     OR push_bit 56 (ucast (m (a + 7)))"

definition wr64 :: "(addr \<Rightarrow> byte) \<Rightarrow> addr \<Rightarrow> 64 word \<Rightarrow> (addr \<Rightarrow> byte)" where
  "wr64 m a v = (\<lambda>x. if x - a < 8 then ucast (drop_bit (8 * unat (x - a)) v) else m x)"

definition rd32 :: "(addr \<Rightarrow> byte) \<Rightarrow> addr \<Rightarrow> 32 word" where
  "rd32 m a = ucast (m a) OR push_bit 8 (ucast (m (a + 1))) OR push_bit 16 (ucast (m (a + 2)))
     OR push_bit 24 (ucast (m (a + 3)))"

definition wr32 :: "(addr \<Rightarrow> byte) \<Rightarrow> addr \<Rightarrow> 32 word \<Rightarrow> (addr \<Rightarrow> byte)" where
  "wr32 m a v = (\<lambda>x. if x - a < 4 then ucast (drop_bit (8 * unat (x - a)) v) else m x)"

definition load64 :: "astate \<Rightarrow> addr \<Rightarrow> 64 word res" where
  "load64 st a = (if in_heap st a 8 then Ok (rd64 (mem st) a) else Fault (SegFault a))"

definition store64 :: "astate \<Rightarrow> addr \<Rightarrow> 64 word \<Rightarrow> astate res" where
  "store64 st a v =
     (if in_heap st a 8 then Ok (st\<lparr>mem := wr64 (mem st) a v\<rparr>) else Fault (SegFault a))"

definition load32 :: "astate \<Rightarrow> addr \<Rightarrow> 32 word res" where
  "load32 st a = (if in_heap st a 4 then Ok (rd32 (mem st) a) else Fault (SegFault a))"

definition store32 :: "astate \<Rightarrow> addr \<Rightarrow> 32 word \<Rightarrow> astate res" where
  "store32 st a v =
     (if in_heap st a 4 then Ok (st\<lparr>mem := wr32 (mem st) a v\<rparr>) else Fault (SegFault a))"

text \<open>
  The C library's \<^verbatim>\<open>memset\<close> and \<^verbatim>\<open>memcpy\<close> on \<open>n\<close> bytes. \<^verbatim>\<open>memcpy\<close> on overlapping
  ranges is undefined behaviour.
\<close>

definition memset :: "astate \<Rightarrow> addr \<Rightarrow> byte \<Rightarrow> 64 word \<Rightarrow> astate res" where
  "memset st p c n =
     (if in_heap st p (unat n) then Ok (st\<lparr>mem := (\<lambda>x. if x - p < n then c else mem st x)\<rparr>)
      else Fault (SegFault p))"

definition memcpy :: "astate \<Rightarrow> addr \<Rightarrow> addr \<Rightarrow> 64 word \<Rightarrow> astate res" where
  "memcpy st d s n =
     (if \<not> in_heap st s (unat n) then Fault (SegFault s)
      else if \<not> in_heap st d (unat n) then Fault (SegFault d)
      else if unat d + unat n \<le> unat s \<or> unat s + unat n \<le> unat d
      then Ok (st\<lparr>mem := (\<lambda>x. if x - d < n then mem st (s + (x - d)) else mem st x)\<rparr>)
      else Fault Undefined)"

text \<open>
  Modelled from the spec: the declarations of \<^verbatim>\<open>alloc.h\<close>, which is not among the sources.
  The block header is \<open>{ payload_size: unsigned integer; sentinel }\<close> and the free block
  node, overlaid on the same bytes, is \<open>{ size: unsigned integer; next: link }\<close>. On the
  LP64 target of the code (\<^verbatim>\<open>size_t\<close> and pointers of 8 bytes, \<^verbatim>\<open>int\<close> of 4) both
  structures take 16 bytes: \<open>size\<close> at offset 0 in both, the 4-byte \<open>magic\<close> and the 8-byte
  \<open>next\<close> at offset 8.
\<close>

definition sizeof_header :: "64 word" where
  "sizeof_header = 16"

definition sizeof_free_block :: "64 word" where
  "sizeof_free_block = 16"

definition ALIGNMENT :: "64 word" where
  "ALIGNMENT = 16"

definition MAGIC :: "32 word" where
  "MAGIC = 0x01234567"

definition size_of :: "addr \<Rightarrow> addr" where
  "size_of p = p"

definition next_of :: "addr \<Rightarrow> addr" where
  "next_of p = p + 8"

definition magic_of :: "addr \<Rightarrow> addr" where
  "magic_of p = p + 8"

text \<open>
  Modelled from the spec: the Region Source, \<^verbatim>\<open>sbrk\<close> of the C library, is not code of this
  repository. It moves the program break by a signed increment and returns the previous
  break; it fails with \<open>(void *) -1\<close>, leaving the break where it was, when the system does
  not grant the new break.
\<close>

definition sbrk :: "astate \<Rightarrow> 64 word \<Rightarrow> addr \<times> astate" where
  "sbrk st increment =
     (let new = uint (brk st) + sint increment
      in if uint (heap_start st) \<le> new \<and> new \<le> uint (heap_limit st)
         then (brk st, st\<lparr>brk := word_of_int new\<rparr>)
         else (- 1, st))"

section \<open>List algorithms\<close>

text \<open>
  \<^verbatim>\<open>split\<close> (lines 21-35). The parameter \<^verbatim>\<open>size\<close> is an \<^verbatim>\<open>int\<close>; in the comparison and in
  the pointer arithmetic it is converted to 64 bits with its sign.
\<close>

definition split :: "astate \<Rightarrow> addr \<Rightarrow> 32 word \<Rightarrow> (addr \<times> astate) res" where
  "split st block sz =
     rbind (load64 st (size_of block)) (\<lambda>bsize.
     if bsize < scast sz + sizeof_free_block then Ok (0, st)
     else
       let new_block = block + scast sz + sizeof_free_block in
       rbind (load64 st (size_of block)) (\<lambda>bsize.
       rbind (store64 st (size_of new_block) (bsize - scast sz - sizeof_free_block)) (\<lambda>st1.
       rbind (load64 st1 (next_of block)) (\<lambda>bnext.
       rbind (store64 st1 (next_of new_block) bnext) (\<lambda>st2.
       rbind (store64 st2 (size_of block) (scast sz)) (\<lambda>st3.
       Ok (block, st3)))))))"

text \<open>\<^verbatim>\<open>find_prev\<close> (lines 43-52): the loop, started at \<^verbatim>\<open>HEAD\<close>.\<close>

partial_function (option) find_prev_loop :: "astate \<Rightarrow> addr \<Rightarrow> addr \<Rightarrow> addr res" where
  "find_prev_loop st block cur =
     (if cur = 0 then Ok 0
      else rbind (load64 st (size_of cur)) (\<lambda>csize.
           if cur + csize + sizeof_free_block = block then Ok cur
           else rbind (load64 st (next_of cur)) (\<lambda>cnext. find_prev_loop st block cnext)))"

declare find_prev_loop.simps [code]

definition find_prev :: "astate \<Rightarrow> addr \<Rightarrow> addr res" where
  "find_prev st block = find_prev_loop st block (HEAD st)"

text \<open>\<^verbatim>\<open>find_next\<close> (lines 60-70).\<close>

partial_function (option) find_next_loop :: "astate \<Rightarrow> addr \<Rightarrow> addr \<Rightarrow> addr res" where
  "find_next_loop st block_end cur =
     (if cur = 0 then Ok 0
      else if cur = block_end then Ok cur
      else rbind (load64 st (next_of cur)) (\<lambda>cnext. find_next_loop st block_end cnext))"

declare find_next_loop.simps [code]

definition find_next :: "astate \<Rightarrow> addr \<Rightarrow> addr res" where
  "find_next st block =
     rbind (load64 st (size_of block)) (\<lambda>bsize.
     find_next_loop st (block + bsize + sizeof_free_block) (HEAD st))"

text \<open>\<^verbatim>\<open>remove_free_block\<close> (lines 77-90).\<close>

partial_function (option) remove_loop :: "astate \<Rightarrow> addr \<Rightarrow> addr \<Rightarrow> astate res" where
  "remove_loop st block cur =
     (if cur = 0 then Ok st
      else rbind (load64 st (next_of cur)) (\<lambda>cnext.
           if cnext = block
           then rbind (load64 st (next_of block)) (\<lambda>bnext. store64 st (next_of cur) bnext)
           else remove_loop st block cnext))"

declare remove_loop.simps [code]

definition remove_free_block :: "astate \<Rightarrow> addr \<Rightarrow> astate res" where
  "remove_free_block st block =
     (if HEAD st = block
      then rbind (load64 st (next_of block)) (\<lambda>bnext. Ok (st\<lparr>HEAD := bnext\<rparr>))
      else remove_loop st block (HEAD st))"

text \<open>
  \<^verbatim>\<open>coalesce\<close> (lines 98-132), in its two steps: the merge into the previous neighbour
  (lines 107-118), which yields the block to go on with, and the merge of the next
  neighbour (lines 121-129).
\<close>

definition coalesce_prev :: "astate \<Rightarrow> addr \<Rightarrow> addr \<Rightarrow> (addr \<times> astate) res" where
  "coalesce_prev st block prev =
     (if prev \<noteq> 0 then
        rbind (load64 st (size_of prev)) (\<lambda>psize.
        if prev + psize + sizeof_free_block = block then
          rbind (load64 st (size_of block)) (\<lambda>bsize.
          rbind (store64 st (size_of prev) (psize + (bsize + sizeof_free_block))) (\<lambda>st1.
          rbind (load64 st1 (next_of prev)) (\<lambda>pnext.
          rbind (if pnext = block
                 then rbind (load64 st1 (next_of block)) (\<lambda>bnext.
                      store64 st1 (next_of prev) bnext)
                 else Ok st1) (\<lambda>st2.
          Ok (prev, st2)))))
        else Ok (block, st))
      else Ok (block, st))"

definition coalesce_next :: "astate \<Rightarrow> addr \<Rightarrow> addr \<Rightarrow> astate res" where
  "coalesce_next st block nxt =
     (if nxt \<noteq> 0 then
        rbind (load64 st (size_of block)) (\<lambda>bsize.
        if block + bsize + sizeof_free_block = nxt then
          rbind (load64 st (size_of nxt)) (\<lambda>nsize.
          rbind (store64 st (size_of block) (bsize + (nsize + sizeof_free_block))) (\<lambda>st1.
          rbind (load64 st1 (next_of nxt)) (\<lambda>nnext.
          store64 st1 (next_of block) nnext)))
        else Ok st)
      else Ok st)"

definition coalesce :: "astate \<Rightarrow> addr \<Rightarrow> (addr \<times> astate) res" where
  "coalesce st block =
     (if block = 0 then Ok (0, st)
      else rbind (find_prev st block) (\<lambda>prev.
           rbind (find_next st block) (\<lambda>nxt.
           rbind (coalesce_prev st block prev) (\<lambda>(block1, st1).
           rbind (coalesce_next st1 block1 nxt) (\<lambda>st2.
           Ok (block1, st2))))))"

section \<open>Allocator API\<close>

text \<open>\<^verbatim>\<open>do_alloc\<close> (lines 140-157).\<close>

definition do_alloc :: "astate \<Rightarrow> 64 word \<Rightarrow> addr \<times> astate" where
  "do_alloc st sz =
     (if sz \<le> 0 then (0, st)
      else
        let size1 = (sz + ALIGNMENT - 1) AND NOT (ALIGNMENT - 1);
            (ptr, st1) = sbrk st size1
        in if ptr = - 1 then (0, st1) else (ptr, st1))"

text \<open>
  The three statements that end every successful path of \<^verbatim>\<open>tumalloc\<close>
  (lines 177-179, 198-201 and 208-210): stamp the header and return the address after it.
\<close>

definition stamp :: "astate \<Rightarrow> addr \<Rightarrow> 64 word \<Rightarrow> (addr \<times> astate) res" where
  "stamp st hdr sz =
     rbind (store64 st (size_of hdr) sz) (\<lambda>st1.
     rbind (store32 st1 (magic_of hdr) MAGIC) (\<lambda>st2.
     Ok (hdr + sizeof_header, st2)))"

text \<open>
  \<^verbatim>\<open>tumalloc\<close> (lines 165-212). The loop of lines 186-204 with what follows it
  (lines 205-210, reached when \<^verbatim>\<open>block\<close> is null); the loop passes
  \<^verbatim>\<open>size + sizeof(header)\<close> to the \<^verbatim>\<open>int\<close> parameter of \<^verbatim>\<open>split\<close>, which keeps its low 32 bits.
\<close>

partial_function (option) tumalloc_loop :: "astate \<Rightarrow> 64 word \<Rightarrow> addr \<Rightarrow> (addr \<times> astate) res"
  where
  "tumalloc_loop st sz block =
     (if block = 0 then
        (case do_alloc st (sz + sizeof_header) of (raw, st1) \<Rightarrow> stamp st1 raw sz)
      else rbind (load64 st (size_of block)) (\<lambda>bsize.
           if sz + sizeof_header \<le> bsize then
             rbind (split st block (ucast (sz + sizeof_header))) (\<lambda>(hdr, st1).
             if hdr = 0
             then rbind (remove_free_block st1 block) (\<lambda>st2. stamp st2 block sz)
             else rbind (remove_free_block st1 hdr) (\<lambda>st2. stamp st2 hdr sz))
           else rbind (load64 st (next_of block)) (\<lambda>bnext. tumalloc_loop st sz bnext)))"

declare tumalloc_loop.simps [code]

definition tumalloc :: "astate \<Rightarrow> 64 word \<Rightarrow> (addr \<times> astate) res" where
  "tumalloc st sz =
     (if HEAD st = 0 then
        (case do_alloc st (sz + sizeof_header) of (raw, st1) \<Rightarrow>
           if raw = 0 then Ok (0, st1) else stamp st1 raw sz)
      else tumalloc_loop st sz (HEAD st))"

text \<open>\<^verbatim>\<open>tucalloc\<close> (lines 223-243).\<close>

definition tucalloc :: "astate \<Rightarrow> 64 word \<Rightarrow> 64 word \<Rightarrow> (addr \<times> astate) res" where
  "tucalloc st num sz =
     (let total_size = num * sz
      in if total_size = 0 then Ok (0, st)
         else rbind (tumalloc st total_size) (\<lambda>(ptr, st1).
              if ptr = 0 then Ok (0, st1)
              else rbind (memset st1 ptr 0 total_size) (\<lambda>st2. Ok (ptr, st2))))"

text \<open>\<^verbatim>\<open>tufree\<close> (lines 291-312). The message printed before \<^verbatim>\<open>abort()\<close> is not modelled.\<close>

definition tufree :: "astate \<Rightarrow> addr \<Rightarrow> astate res" where
  "tufree st ptr =
     (let hdr = ptr - sizeof_header in
      rbind (load32 st (magic_of hdr)) (\<lambda>magic.
      if magic = MAGIC then
        rbind (load64 st (size_of hdr)) (\<lambda>hsize.
        rbind (store64 st (size_of hdr) hsize) (\<lambda>st1.
        rbind (store64 st1 (next_of hdr) (HEAD st1)) (\<lambda>st2.
        rbind (coalesce (st2\<lparr>HEAD := hdr\<rparr>) hdr) (\<lambda>(_, st3).
        Ok st3))))
      else Fault Aborted))"

text \<open>\<^verbatim>\<open>turealloc\<close> (lines 252-284).\<close>

definition turealloc :: "astate \<Rightarrow> addr \<Rightarrow> 64 word \<Rightarrow> (addr \<times> astate) res" where
  "turealloc st ptr new_size =
     (if ptr = 0 then tumalloc st new_size
      else if new_size = 0 then rbind (tufree st ptr) (\<lambda>st1. Ok (0, st1))
      else
        let old_header = ptr - sizeof_header in
        rbind (load64 st (size_of old_header)) (\<lambda>osize.
        if osize \<ge> new_size then Ok (ptr, st)
        else
          rbind (tumalloc st new_size) (\<lambda>(new_ptr, st1).
          if new_ptr = 0 then Ok (0, st1)
          else
            rbind (load64 st1 (size_of old_header)) (\<lambda>osize1.
            let copy_size = (if osize1 < new_size then osize1 else new_size) in
            rbind (memcpy st1 new_ptr ptr copy_size) (\<lambda>st2.
            Ok (new_ptr, st2))))))"

text \<open>
  A process at its start: the free list is empty (line 12) and nothing has been obtained
  from the system yet. The heap starts at \<open>0x1000\<close> and the system grants \<open>0x1000\<close> bytes.
\<close>

definition heap0 :: astate where
  "heap0 = \<lparr>mem = (\<lambda>_. 0), HEAD = 0, heap_start = 0x1000, brk = 0x1000, heap_limit = 0x2000\<rparr>"

section \<open>Observations and properties of states\<close>

text \<open>
  The process of \<open>heap0\<close> when the system grants no more than 32 bytes: the region is
  exhausted after one block of 16 bytes.
\<close>

definition heap_full :: astate where
  "heap_full = heap0\<lparr>heap_limit := 0x1020\<rparr>"

text \<open>The address a call returned, without the state.\<close>

definition ptr_of :: "(addr \<times> astate) res \<Rightarrow> addr res" where
  "ptr_of r = rbind r (\<lambda>(p, st). Ok p)"

text \<open>
  The free list as a list of addresses: \<open>path m h ns\<close> holds when following the \<open>next\<close>
  links in memory \<open>m\<close> from \<open>h\<close> visits exactly the nodes \<open>ns\<close> and then reaches null.
\<close>

primrec path :: "(addr \<Rightarrow> byte) \<Rightarrow> addr \<Rightarrow> addr list \<Rightarrow> bool" where
  "path m h [] \<longleftrightarrow> h = 0"
| "path m h (n # ns) \<longleftrightarrow> h = n \<and> n \<noteq> 0 \<and> path m (rd64 m (next_of n)) ns"

definition aligned16 :: "addr \<Rightarrow> bool" where
  "aligned16 a \<longleftrightarrow> unat a mod 16 = 0"

text \<open>
  A caller's session: allocate \<open>s\<close> bytes, release them, allocate \<open>s'\<close> bytes. Observed: the
  two addresses returned, and the program break before and after the second allocation.
\<close>

definition alloc_free_alloc :: "astate \<Rightarrow> 64 word \<Rightarrow> 64 word \<Rightarrow> (addr \<times> addr \<times> addr \<times> addr) res"
  where
  "alloc_free_alloc st s s' =
     rbind (tumalloc st s) (\<lambda>(p, st1).
     rbind (tufree st1 p) (\<lambda>st2.
     rbind (tumalloc st2 s') (\<lambda>(q, st3).
     Ok (p, q, brk st2, brk st3))))"

text \<open>
  The same session, observing the free list after the second allocation: the address
  returned, \<^verbatim>\<open>HEAD\<close>, whether the free list is the given list of nodes, and the \<open>size\<close> field
  found at the address \<open>r\<close>.
\<close>

definition alloc_free_alloc_list ::
  "astate \<Rightarrow> 64 word \<Rightarrow> 64 word \<Rightarrow> addr list \<Rightarrow> addr \<Rightarrow> (addr \<times> addr \<times> bool \<times> 64 word) res"
  where
  "alloc_free_alloc_list st s s' ns r =
     rbind (tumalloc st s) (\<lambda>(p, st1).
     rbind (tufree st1 p) (\<lambda>st2.
     rbind (tumalloc st2 s') (\<lambda>(q, st3).
     Ok (q, HEAD st3, path (mem st3) (HEAD st3) ns, rd64 (mem st3) (size_of r)))))"

text \<open>
  Two blocks allocated back to back and both released, the first one first when \<open>fst_first\<close>
  holds. Observed: the two addresses, whether the free list is the given list of nodes, and
  the \<open>size\<close> fields of the two blocks.
\<close>

definition alloc2_free2 ::
  "astate \<Rightarrow> 64 word \<Rightarrow> 64 word \<Rightarrow> bool \<Rightarrow> addr list \<Rightarrow> (addr \<times> addr \<times> bool \<times> 64 word \<times> 64 word) res"
  where
  "alloc2_free2 st s1 s2 fst_first ns =
     rbind (tumalloc st s1) (\<lambda>(a, st1).
     rbind (tumalloc st1 s2) (\<lambda>(b, st2).
     rbind (tufree st2 (if fst_first then a else b)) (\<lambda>st3.
     rbind (tufree st3 (if fst_first then b else a)) (\<lambda>st4.
     Ok (a, b, path (mem st4) (HEAD st4) ns,
         rd64 (mem st4) (size_of (a - sizeof_header)),
         rd64 (mem st4) (size_of (b - sizeof_header)))))))"

text \<open>
  Two states of the process of \<open>heap0\<close>, written out: after \<^verbatim>\<open>tumalloc(64)\<close>, which
  returns \<open>0x1010\<close>, and after the release of that block.
\<close>

definition heap_a64 :: astate where
  "heap_a64 = \<lparr>mem = wr32 (wr64 (\<lambda>_. 0) 0x1000 64) 0x1008 0x01234567, HEAD = 0,
     heap_start = 0x1000, brk = 0x1050, heap_limit = 0x2000\<rparr>"

definition heap_f64 :: astate where
  "heap_f64 = \<lparr>mem = wr64 (wr64 (mem heap_a64) 0x1000 64) 0x1008 0, HEAD = 0x1000,
     heap_start = 0x1000, brk = 0x1050, heap_limit = 0x2000\<rparr>"

text \<open>
  The state after \<^verbatim>\<open>tumalloc(64)\<close> in \<open>heap_a64\<close>, which returns \<open>0x1060\<close>, and the release
  of that second block: the block at \<open>0x1010\<close> is allocated and the free list holds the
  node at \<open>0x1050\<close>.
\<close>

definition heap_a64_f64 :: astate where
  "heap_a64_f64 = \<lparr>mem = wr64 (wr64 (wr32 (wr64 (mem heap_a64) 0x1050 64) 0x1058 0x01234567)
       0x1050 64) 0x1058 0,
     HEAD = 0x1050, heap_start = 0x1000, brk = 0x10A0, heap_limit = 0x2000\<rparr>"

text \<open>
  Two nodes are apart when their 16 bytes do not meet; a node is in order when its 16
  bytes and the size it records lie in the region.
\<close>

definition apart :: "addr \<Rightarrow> addr \<Rightarrow> bool" where
  "apart a b \<longleftrightarrow> 16 \<le> b - a \<and> 16 \<le> a - b"

definition node_ok :: "astate \<Rightarrow> addr \<Rightarrow> bool" where
  "node_ok st n \<longleftrightarrow> in_heap st n (16 + unat (rd64 (mem st) (size_of n)))"

text \<open>
  The process of \<open>heap0\<close> when the system grants 64 bytes in all: room for two blocks of
  16 bytes and nothing more.
\<close>

definition heap_two :: astate where
  "heap_two = heap0\<lparr>heap_limit := 0x1040\<rparr>"

text \<open>
  A caller's session: allocate \<open>s1\<close> and \<open>s2\<close> bytes, release the first block and resize the
  second to \<open>n\<close> bytes. Observed: the three addresses returned.
\<close>

definition alloc2_free_resize ::
  "astate \<Rightarrow> 64 word \<Rightarrow> 64 word \<Rightarrow> 64 word \<Rightarrow> (addr \<times> addr \<times> addr) res" where
  "alloc2_free_resize st s1 s2 n =
     rbind (tumalloc st s1) (\<lambda>(a, st1).
     rbind (tumalloc st1 s2) (\<lambda>(b, st2).
     rbind (tufree st2 a) (\<lambda>st3.
     rbind (turealloc st3 b n) (\<lambda>(q, st4).
     Ok (a, b, q)))))"

text \<open>
  A caller's session: allocate 64 and 16 bytes back to back, release both, the lower block
  first, and allocate 80 bytes. The caller then writes three words into the 80 bytes it was
  given, at the offsets 1, 9 and 72, and allocates 32 bytes. Observed: the four addresses
  returned, and whether the last one is a multiple of 16.
\<close>

definition overlap_forge :: "astate \<Rightarrow> (addr \<times> addr \<times> addr \<times> addr \<times> bool) res" where
  "overlap_forge st =
     rbind (tumalloc st 64) (\<lambda>(a, st1).
     rbind (tumalloc st1 16) (\<lambda>(b, st2).
     rbind (tufree st2 a) (\<lambda>st3.
     rbind (tufree st3 b) (\<lambda>st4.
     rbind (tumalloc st4 80) (\<lambda>(c, st5).
     rbind (store64 st5 (c + 1) 48) (\<lambda>st6.
     rbind (store64 st6 (c + 9) 0) (\<lambda>st7.
     rbind (store64 st7 (c + 72) (c + 1)) (\<lambda>st8.
     rbind (tumalloc st8 32) (\<lambda>(d, st9).
     Ok (a, b, c, d, aligned16 d))))))))))"

text \<open>
  A caller's session: allocate two blocks of 64 bytes back to back, release both, the lower
  block first, allocate 48 bytes, write the word \<open>v\<close> at the start of these 48 bytes and
  resize them to 64 bytes. Observed: the address of the 48 bytes, the address returned by
  the resize and the first word found there.
\<close>

definition overlap_resize :: "astate \<Rightarrow> 64 word \<Rightarrow> (addr \<times> addr \<times> 64 word) res" where
  "overlap_resize st v =
     rbind (tumalloc st 64) (\<lambda>(a, st1).
     rbind (tumalloc st1 64) (\<lambda>(b, st2).
     rbind (tufree st2 a) (\<lambda>st3.
     rbind (tufree st3 b) (\<lambda>st4.
     rbind (tumalloc st4 48) (\<lambda>(p, st5).
     rbind (store64 st5 p v) (\<lambda>st6.
     rbind (turealloc st6 p 64) (\<lambda>(q, st7).
     Ok (p, q, rd64 (mem st7) q))))))))"

section \<open>Reading and writing memory\<close>

lemma cat8:
  fixes v :: "64 word"
  shows "ucast (ucast v :: byte) OR push_bit 8 (ucast (ucast (drop_bit 8 v) :: byte))
    OR push_bit 16 (ucast (ucast (drop_bit 16 v) :: byte))
    OR push_bit 24 (ucast (ucast (drop_bit 24 v) :: byte))
    OR push_bit 32 (ucast (ucast (drop_bit 32 v) :: byte))
    OR push_bit 40 (ucast (ucast (drop_bit 40 v) :: byte))
    OR push_bit 48 (ucast (ucast (drop_bit 48 v) :: byte))
    OR push_bit 56 (ucast (ucast (drop_bit 56 v) :: byte)) = v" (is "?lhs = v")
proof (rule bit_word_eqI)
  fix n assume "n < LENGTH(64)"
  then have n: "n < 64" by simp
  consider "n < 8" | "8 \<le> n" "n < 16" | "16 \<le> n" "n < 24" | "24 \<le> n" "n < 32"
    | "32 \<le> n" "n < 40" | "40 \<le> n" "n < 48" | "48 \<le> n" "n < 56" | "56 \<le> n" "n < 64"
    using n by linarith
  then show "bit ?lhs n = bit v n"
    by cases (auto simp add: bit_simps)
qed

lemma cat4:
  fixes v :: "32 word"
  shows "ucast (ucast v :: byte) OR push_bit 8 (ucast (ucast (drop_bit 8 v) :: byte))
    OR push_bit 16 (ucast (ucast (drop_bit 16 v) :: byte))
    OR push_bit 24 (ucast (ucast (drop_bit 24 v) :: byte)) = v" (is "?lhs = v")
proof (rule bit_word_eqI)
  fix n assume "n < LENGTH(32)"
  then have n: "n < 32" by simp
  consider "n < 8" | "8 \<le> n" "n < 16" | "16 \<le> n" "n < 24" | "24 \<le> n" "n < 32"
    using n by linarith
  then show "bit ?lhs n = bit v n"
    by cases (auto simp add: bit_simps)
qed

lemma rd64_wr64_same: "rd64 (wr64 m a v) a = v"
  unfolding rd64_def wr64_def by (simp add: cat8)

lemma rd32_wr32_same: "rd32 (wr32 m a v) a = v"
  unfolding rd32_def wr32_def by (simp add: cat4)

text \<open>
  A write of \<open>w\<close> bytes at \<open>a\<close> and a read of \<open>r\<close> bytes at \<open>b\<close> do not meet when
  \<open>w \<le> b - a\<close> and \<open>r \<le> a - b\<close>, in the arithmetic of addresses.
\<close>

lemma off_range:
  fixes a b k w r :: addr
  assumes "w \<le> b - a" "r \<le> a - b" "k < r"
  shows "\<not> b + k - a < w"
  using assms by unat_arith

lemma wr64_outside: "8 \<le> x - a \<Longrightarrow> wr64 m a v x = m x"
  by (simp add: wr64_def not_less [symmetric])

lemma wr32_outside: "4 \<le> x - a \<Longrightarrow> wr32 m a v x = m x"
  by (simp add: wr32_def not_less [symmetric])

lemma rd64_wr64_other:
  assumes "8 \<le> b - a" "8 \<le> a - b"
  shows "rd64 (wr64 m a v) b = rd64 m b"
proof -
  have "\<not> b + k - a < 8" if "k < 8" for k
    using off_range [OF assms that] .
  from this [of 0] this [of 1] this [of 2] this [of 3] this [of 4] this [of 5] this [of 6]
    this [of 7]
  show ?thesis by (simp add: rd64_def wr64_def)
qed

lemma rd64_wr32_other:
  assumes "4 \<le> b - a" "8 \<le> a - b"
  shows "rd64 (wr32 m a v) b = rd64 m b"
proof -
  have "\<not> b + k - a < 4" if "k < 8" for k
    using off_range [OF assms that] .
  from this [of 0] this [of 1] this [of 2] this [of 3] this [of 4] this [of 5] this [of 6]
    this [of 7]
  show ?thesis by (simp add: rd64_def wr32_def)
qed

lemma rd32_wr64_other:
  assumes "8 \<le> b - a" "4 \<le> a - b"
  shows "rd32 (wr64 m a v) b = rd32 m b"
proof -
  have "\<not> b + k - a < 8" if "k < 4" for k
    using off_range [OF assms that] .
  from this [of 0] this [of 1] this [of 2] this [of 3]
  show ?thesis by (simp add: rd32_def wr64_def)
qed

lemma rd32_wr32_other:
  assumes "4 \<le> b - a" "4 \<le> a - b"
  shows "rd32 (wr32 m a v) b = rd32 m b"
proof -
  have "\<not> b + k - a < 4" if "k < 4" for k
    using off_range [OF assms that] .
  from this [of 0] this [of 1] this [of 2] this [of 3]
  show ?thesis by (simp add: rd32_def wr32_def)
qed

lemma rd64_zero: "rd64 (\<lambda>_. 0) a = 0"
  by (simp add: rd64_def)

lemma rd64_copy_first:
  fixes n :: "64 word"
  assumes "8 \<le> n"
  shows "rd64 (\<lambda>x. if x - d < n then m (s + (x - d)) else m x) d = rd64 m s"
proof -
  have "k < n" if "k < 8" for k :: "64 word"
    using assms that by simp
  from this [of 0] this [of 1] this [of 2] this [of 3] this [of 4] this [of 5] this [of 6]
    this [of 7]
  show ?thesis by (simp add: rd64_def)
qed

lemmas mem_simps = rd64_wr64_same rd32_wr32_same rd64_wr64_other rd64_wr32_other
  rd32_wr64_other rd32_wr32_other rd64_zero

lemmas op_defs = load64_def store64_def load32_def store32_def in_heap_def
  sizeof_header_def sizeof_free_block_def ALIGNMENT_def MAGIC_def size_of_def next_of_def
  magic_of_def

lemmas fn_defs = tumalloc_def tufree_def do_alloc_def sbrk_def stamp_def coalesce_def
  coalesce_prev_def coalesce_next_def find_prev_def find_next_def remove_free_block_def
  split_def

lemmas loop_simps = find_prev_loop.simps find_next_loop.simps remove_loop.simps
  tumalloc_loop.simps

lemma unat_lt64: "unat (a :: addr) < 18446744073709551616"
  using unsigned_less [of a, where 'a = nat] by simp

lemma unat_add64:
  fixes a b :: addr
  assumes "unat a + unat b < 18446744073709551616"
  shows "unat (a + b) = unat a + unat b"
  using assms unat_add_lem [of a b] by simp

text \<open>Two ranges laid out one after the other below \<open>2 ^ 64\<close> do not meet.\<close>

lemma sepI:
  fixes a b w r :: addr
  assumes "unat a + unat w \<le> unat b" "unat a < unat b"
    "unat b + unat r \<le> 18446744073709551616"
  shows "w \<le> b - a" and "r \<le> a - b"
proof -
  have "unat (b - a) = unat b - unat a"
    using assms(2) by (simp add: unat_sub word_le_nat_alt)
  then show "w \<le> b - a"
    using assms(1) by (simp add: word_le_nat_alt)
  have "unat (a - b) = unat a + 18446744073709551616 - unat b"
    using assms(2) by (simp add: unat_sub_if_size word_size)
  then show "r \<le> a - b"
    using assms(3) by (simp add: word_le_nat_alt)
qed

text \<open>An \<^verbatim>\<open>int\<close> that is not negative keeps its value when converted to \<^verbatim>\<open>size_t\<close>.\<close>

lemma scast_nonneg:
  fixes n :: "32 word"
  assumes "0 \<le> sint n"
  shows "unat (scast n :: 64 word) = nat (sint n)" and "nat (sint n) < 2147483648"
proof -
  have lt: "sint n < 2147483648"
    using sint_lt [of n] by simp
  then show "nat (sint n) < 2147483648" using assms by simp
  have "uint (word_of_int (sint n) :: 64 word) = sint n mod 2 ^ LENGTH(64)"
    by (rule uint_word_of_int)
  also have "\<dots> = sint n"
    using assms lt by simp
  finally have "uint (scast n :: 64 word) = sint n"
    by (simp only: scast_eq)
  then show "unat (scast n :: 64 word) = nat (sint n)"
    by (simp only: unat_eq_nat_uint)
qed

section \<open>The example states are states of a run\<close>

lemma heap_a64_reached: "tumalloc heap0 64 = Ok (0x1010, heap_a64)"
  unfolding heap0_def heap_a64_def
  by (simp add: fn_defs loop_simps op_defs mem_simps)

lemma heap_f64_reached: "tufree heap_a64 0x1010 = Ok heap_f64"
  unfolding heap_f64_def heap_a64_def
  by (simp add: fn_defs loop_simps op_defs mem_simps)

lemma heap_a64_f64_reached:
  "rbind (tumalloc heap_a64 64) (\<lambda>(q, st). tufree st q) = Ok heap_a64_f64"
  unfolding heap_a64_f64_def heap_a64_def
  by (simp add: fn_defs loop_simps op_defs mem_simps)

section \<open>Results of the parts of an allocation\<close>

lemma aligned16_add16: "aligned16 a \<Longrightarrow> aligned16 (a + 16)"
proof -
  assume a: "aligned16 a"
  have "unat (a + 16) = (unat a + 16) mod 18446744073709551616"
    by (simp add: unat_word_ariths)
  moreover have "(unat a + 16) mod 18446744073709551616 mod 16 = (unat a + 16) mod 16"
    by (rule mod_mod_cancel) simp
  ultimately show ?thesis using a by (simp add: aligned16_def)
qed

lemma aligned16_0: "aligned16 0"
  by (simp add: aligned16_def)

lemma rbind_Ok:
  "rbind m f = Ok y \<longleftrightarrow> (\<exists>x. m = Ok x \<and> f x = Ok y)"
  by (cases m) (auto split: sum.splits)

lemma split_result: "split st block n = Ok (h, st') \<Longrightarrow> h = 0 \<or> h = block"
  by (auto simp add: split_def rbind_Ok Let_def split: if_splits)

lemma stamp_result: "stamp st h sz = Ok (p, st') \<Longrightarrow> p = h + 16"
  by (auto simp add: stamp_def rbind_Ok sizeof_header_def)

lemma do_alloc_result: "do_alloc st n = (raw, st1) \<Longrightarrow> raw = 0 \<or> raw = brk st"
  by (auto simp add: do_alloc_def sbrk_def Let_def split: if_splits prod.splits)

lemma tumalloc_loop_aligned:
  assumes "path (mem st) b ns" "list_all aligned16 ns" "aligned16 (brk st)"
    "tumalloc_loop st sz b = Ok (p, st')"
  shows "aligned16 p"
  using assms
proof (induction ns arbitrary: b)
  case Nil
  then have b: "b = 0" by simp
  obtain raw st1 where d: "do_alloc st (sz + sizeof_header) = (raw, st1)"
    by (cases "do_alloc st (sz + sizeof_header)")
  with Nil.prems(4) b have "stamp st1 raw sz = Ok (p, st')"
    by (simp add: tumalloc_loop.simps [of st sz 0])
  then have "p = raw + 16" by (rule stamp_result)
  moreover have "raw = 0 \<or> raw = brk st" using d by (rule do_alloc_result)
  ultimately show ?case
    using Nil.prems(3) aligned16_add16 [of 0] aligned16_add16 [of "brk st"] aligned16_0 by auto
next
  case (Cons n ns)
  then have b: "b = n" "n \<noteq> 0" and rest: "path (mem st) (rd64 (mem st) (next_of n)) ns"
    and al: "aligned16 n" "list_all aligned16 ns"
    by simp_all
  from Cons.prems(4) b obtain bsize where ld: "load64 st (size_of n) = Ok bsize"
    and body: "(if sz + sizeof_header \<le> bsize then
             rbind (split st n (ucast (sz + sizeof_header))) (\<lambda>(hdr, st1).
             if hdr = 0
             then rbind (remove_free_block st1 n) (\<lambda>st2. stamp st2 n sz)
             else rbind (remove_free_block st1 hdr) (\<lambda>st2. stamp st2 hdr sz))
           else rbind (load64 st (next_of n)) (\<lambda>bnext. tumalloc_loop st sz bnext)) = Ok (p, st')"
    by (subst (asm) tumalloc_loop.simps) (auto simp add: rbind_Ok)
  show ?case
  proof (cases "sz + sizeof_header \<le> bsize")
    case True
    with body obtain hdr st1 st2 where sp: "split st n (ucast (sz + sizeof_header)) = Ok (hdr, st1)"
      and stp: "stamp st2 (if hdr = 0 then n else hdr) sz = Ok (p, st')"
      by (auto simp add: rbind_Ok split: if_splits)
    from sp have "hdr = 0 \<or> hdr = n" by (rule split_result)
    then have "(if hdr = 0 then n else hdr) = n" by auto
    with stp have "p = n + 16" by (simp add: stamp_result)
    then show ?thesis using al(1) by (simp add: aligned16_add16)
  next
    case False
    with body obtain bnext where "load64 st (next_of n) = Ok bnext"
      and "tumalloc_loop st sz bnext = Ok (p, st')"
      by (auto simp add: rbind_Ok)
    moreover from this(1) have "bnext = rd64 (mem st) (next_of n)"
      by (auto simp add: load64_def split: if_splits)
    ultimately show ?thesis
      using Cons.IH [of "rd64 (mem st) (next_of n)"] rest al(2) Cons.prems(3) by simp
  qed
qed

lemma do_alloc_null:
  assumes "brk st \<noteq> 0" "brk st \<noteq> - 1" "do_alloc st m = (0, st')"
  shows "st' = st"
  using assms by (auto simp add: do_alloc_def sbrk_def Let_def split: if_splits prod.splits)

lemma word_add16_nonzero:
  fixes a :: addr
  assumes "unat a < 2 ^ 64 - 16"
  shows "a + 16 \<noteq> 0"
proof -
  have "unat (a + 16) = unat a + 16"
    using assms by (simp add: unat_add64)
  then show ?thesis by (metis add_is_0 unat_0 zero_neq_numeral)
qed

lemma tumalloc_loop_not_null:
  assumes run: "tumalloc_loop st sz b = Some r" and bound: "unat (brk st) < 2 ^ 64 - 16"
    and r: "r = Inr (p, st1)"
  shows "p \<noteq> 0"
proof -
  have "unat (brk st) < 2 ^ 64 - 16 \<longrightarrow> (\<forall>p st1. r = Inr (p, st1) \<longrightarrow> p \<noteq> 0)"
  proof (rule tumalloc_loop.raw_induct [where P = "\<lambda>st sz b r.
      unat (brk st) < 2 ^ 64 - 16 \<longrightarrow> (\<forall>p st1. r = Inr (p, st1) \<longrightarrow> p \<noteq> 0)", OF _ run])
    fix loop st sz block r
    assume IH: "\<And>st sz b y. loop st sz b = Some y \<Longrightarrow>
        unat (brk st) < 2 ^ 64 - 16 \<longrightarrow> (\<forall>p st1. y = Inr (p, st1) \<longrightarrow> p \<noteq> 0)"
      and step: "(if block = 0 then
          (case do_alloc st (sz + sizeof_header) of (raw, st1) \<Rightarrow> stamp st1 raw sz)
        else rbind (load64 st (size_of block)) (\<lambda>bsize.
           if sz + sizeof_header \<le> bsize then
             rbind (split st block (ucast (sz + sizeof_header))) (\<lambda>(hdr, st1).
             if hdr = 0
             then rbind (remove_free_block st1 block) (\<lambda>st2. stamp st2 block sz)
             else rbind (remove_free_block st1 hdr) (\<lambda>st2. stamp st2 hdr sz))
           else rbind (load64 st (next_of block)) (\<lambda>bnext. loop st sz bnext))) = Some r"
    show "unat (brk st) < 2 ^ 64 - 16 \<longrightarrow> (\<forall>p st1. r = Inr (p, st1) \<longrightarrow> p \<noteq> 0)"
    proof (intro impI allI)
      fix p st1
      assume bound: "unat (brk st) < 2 ^ 64 - 16" and r: "r = Inr (p, st1)"
      show "p \<noteq> 0"
      proof (cases "block = 0")
        case True
        obtain raw st' where d: "do_alloc st (sz + sizeof_header) = (raw, st')"
          by (cases "do_alloc st (sz + sizeof_header)")
        with step r True have "stamp st' raw sz = Ok (p, st1)" by simp
        then have "p = raw + 16" by (rule stamp_result)
        moreover have "raw = 0 \<or> raw = brk st" using d by (rule do_alloc_result)
        ultimately show ?thesis using bound word_add16_nonzero [of "brk st"] by auto
      next
        case False
        with step r obtain bsize where ld: "load64 st (size_of block) = Ok bsize"
          and body: "(if sz + sizeof_header \<le> bsize then
               rbind (split st block (ucast (sz + sizeof_header))) (\<lambda>(hdr, st1).
               if hdr = 0
               then rbind (remove_free_block st1 block) (\<lambda>st2. stamp st2 block sz)
               else rbind (remove_free_block st1 hdr) (\<lambda>st2. stamp st2 hdr sz))
             else rbind (load64 st (next_of block)) (\<lambda>bnext. loop st sz bnext)) = Ok (p, st1)"
          by (auto simp add: rbind_Ok)
        from ld have "unat block + 8 \<le> unat (brk st)"
          by (auto simp add: load64_def in_heap_def size_of_def split: if_splits)
        with bound have nz: "block + 16 \<noteq> 0"
          by (intro word_add16_nonzero) simp
        show ?thesis
        proof (cases "sz + sizeof_header \<le> bsize")
          case True
          with body obtain hdr st1' st2 where
            sp: "split st block (ucast (sz + sizeof_header)) = Ok (hdr, st1')"
            and stp: "stamp st2 (if hdr = 0 then block else hdr) sz = Ok (p, st1)"
            by (auto simp add: rbind_Ok split: if_splits)
          from sp have "hdr = 0 \<or> hdr = block" by (rule split_result)
          then have "(if hdr = 0 then block else hdr) = block" by auto
          with stp have "p = block + 16" by (simp add: stamp_result)
          with nz show ?thesis by simp
        next
          case False
          with body obtain bnext where "loop st sz bnext = Ok (p, st1)"
            by (auto simp add: rbind_Ok)
          from IH [OF this] bound show ?thesis by simp
        qed
      qed
    qed
  qed
  with bound r show ?thesis by simp
qed

lemma tumalloc_null:
  assumes "brk st \<noteq> 0" "unat (brk st) < 2 ^ 64 - 16" "tumalloc st n = Ok (0, st1)"
  shows "st1 = st"
proof (cases "HEAD st = 0")
  case True
  obtain raw st' where d: "do_alloc st (n + sizeof_header) = (raw, st')"
    by (cases "do_alloc st (n + sizeof_header)")
  have r: "raw = 0 \<or> raw = brk st" using d by (rule do_alloc_result)
  have "unat (- 1 :: addr) = 18446744073709551615"
    by (simp add: unsigned_minus_1_eq_mask mask_eq_exp_minus_1)
  then have m1: "brk st \<noteq> - 1" using assms(2) by auto
  show ?thesis
  proof (cases "raw = 0")
    case True
    with assms(3) \<open>HEAD st = 0\<close> d have "st1 = st'" by (simp add: tumalloc_def)
    moreover from d True have "st' = st" using do_alloc_null [OF assms(1) m1] by simp
    ultimately show ?thesis by simp
  next
    case False
    with assms(3) \<open>HEAD st = 0\<close> d have "stamp st' raw n = Ok (0, st1)"
      by (simp add: tumalloc_def)
    then have "0 = raw + 16" by (rule stamp_result)
    with r False word_add16_nonzero [OF assms(2)] show ?thesis by auto
  qed
next
  case False
  with assms(3) have "tumalloc_loop st n (HEAD st) = Ok (0, st1)"
    by (simp add: tumalloc_def)
  from tumalloc_loop_not_null [OF this assms(2)] show ?thesis by simp
qed

lemma memcpy_spec:
  assumes "in_heap st s (unat c)" "in_heap st d (unat c)"
    "unat d + unat c \<le> unat s \<or> unat s + unat c \<le> unat d"
  shows "\<exists>st2. memcpy st d s c = Ok st2 \<and> (\<forall>i. i < c \<longrightarrow> mem st2 (d + i) = mem st (s + i)) \<and>
    (\<forall>x. \<not> x - d < c \<longrightarrow> mem st2 x = mem st x) \<and> HEAD st2 = HEAD st \<and> brk st2 = brk st"
  using assms by (simp add: memcpy_def)

text \<open>
  What \<^verbatim>\<open>tumalloc\<close> does for alignment. It keeps the program break a multiple of 16: the
  rounding of line 146. And where the break and the nodes of the free list are multiples
  of 16, the address it returns is one too.
\<close>

lemma round_up_aligned: "aligned16 ((n + ALIGNMENT - 1) AND NOT (ALIGNMENT - 1))"
proof -
  define x where "x = n + ALIGNMENT - 1"
  have m: "(15 :: 64 word) = mask 4" by (simp add: mask_eq_exp_minus_1)
  have "take_bit 4 (x AND NOT (mask 4)) = 0"
    by (rule bit_word_eqI) (simp add: bit_simps)
  moreover have "unat (take_bit 4 y) = unat y mod 16" for y :: "64 word"
    by (simp add: take_bit_eq_mod unat_mod)
  ultimately have "unat (x AND NOT (mask 4)) mod 16 = 0"
    by (metis unat_0)
  then show ?thesis
    unfolding m [symmetric] by (simp add: aligned16_def ALIGNMENT_def x_def)
qed

lemma aligned16_add:
  assumes "aligned16 a" "aligned16 b"
  shows "aligned16 (a + b)"
proof -
  have "unat (a + b) = (unat a + unat b) mod 18446744073709551616"
    by (simp add: unat_word_ariths)
  moreover have "(unat a + unat b) mod 18446744073709551616 mod 16 = (unat a + unat b) mod 16"
    by (rule mod_mod_cancel) simp
  moreover from assms have "16 dvd unat a" "16 dvd unat b"
    by (simp_all add: aligned16_def mod_eq_0_iff_dvd)
  then have "16 dvd unat a + unat b" by (rule dvd_add)
  then have "(unat a + unat b) mod 16 = 0" by (simp add: mod_eq_0_iff_dvd)
  ultimately show ?thesis by (simp add: aligned16_def)
qed

lemma sbrk_break: "sbrk st inc = (r, st1) \<Longrightarrow> brk st1 = brk st \<or> brk st1 = brk st + inc"
  by (auto simp add: sbrk_def Let_def split: if_splits)

lemma do_alloc_break_aligned:
  assumes "aligned16 (brk st)" "do_alloc st n = (raw, st1)"
  shows "aligned16 (brk st1)"
proof (cases "n \<le> 0")
  case True
  with assms show ?thesis by (simp add: do_alloc_def)
next
  case False
  obtain r st' where s: "sbrk st ((n + ALIGNMENT - 1) AND NOT (ALIGNMENT - 1)) = (r, st')"
    by (cases "sbrk st ((n + ALIGNMENT - 1) AND NOT (ALIGNMENT - 1))")
  with assms(2) False have "st1 = st'"
    by (auto simp add: do_alloc_def Let_def split: if_splits)
  with sbrk_break [OF s] assms(1) round_up_aligned [of n] show ?thesis
    by (auto simp add: aligned16_add)
qed

lemma store64_brk: "store64 st a v = Ok st' \<Longrightarrow> brk st' = brk st"
  by (auto simp add: store64_def split: if_splits)

lemma store32_brk: "store32 st a v = Ok st' \<Longrightarrow> brk st' = brk st"
  by (auto simp add: store32_def split: if_splits)

lemma stamp_brk: "stamp st h sz = Ok (p, st') \<Longrightarrow> brk st' = brk st"
  by (auto simp add: stamp_def rbind_Ok dest!: store64_brk store32_brk)

lemma split_brk: "split st block n = Ok (h, st') \<Longrightarrow> brk st' = brk st"
  by (auto simp add: split_def rbind_Ok Let_def split: if_splits dest!: store64_brk)

lemma remove_loop_brk:
  assumes run: "remove_loop st block cur = Some r" and r: "r = Inr st'"
  shows "brk st' = brk st"
proof -
  have "\<forall>st'. r = Inr st' \<longrightarrow> brk st' = brk st"
  proof (rule remove_loop.raw_induct [where P = "\<lambda>st block cur r.
      \<forall>st'. r = Inr st' \<longrightarrow> brk st' = brk st", OF _ run])
    fix loop st block cur r
    assume IH: "\<And>st block cur y. loop st block cur = Some y \<Longrightarrow>
        \<forall>st'. y = Inr st' \<longrightarrow> brk st' = brk st"
      and step: "(if cur = 0 then Ok st
        else rbind (load64 st (next_of cur)) (\<lambda>cnext.
           if cnext = block
           then rbind (load64 st (next_of block)) (\<lambda>bnext. store64 st (next_of cur) bnext)
           else loop st block cnext)) = Some r"
    show "\<forall>st'. r = Inr st' \<longrightarrow> brk st' = brk st"
    proof (intro allI impI)
      fix st'
      assume r: "r = Inr st'"
      show "brk st' = brk st"
      proof (cases "cur = 0")
        case True
        with step r show ?thesis by simp
      next
        case False
        with step r obtain cnext where
          body: "(if cnext = block
           then rbind (load64 st (next_of block)) (\<lambda>bnext. store64 st (next_of cur) bnext)
           else loop st block cnext) = Ok st'"
          by (auto simp add: rbind_Ok)
        show ?thesis
        proof (cases "cnext = block")
          case True
          with body show ?thesis by (auto simp add: rbind_Ok dest: store64_brk)
        next
          case False
          with body have "loop st block cnext = Ok st'" by simp
          from IH [OF this] show ?thesis by simp
        qed
      qed
    qed
  qed
  with r show ?thesis by simp
qed

lemma remove_free_block_brk: "remove_free_block st block = Ok st' \<Longrightarrow> brk st' = brk st"
  by (auto simp add: remove_free_block_def rbind_Ok split: if_splits dest: remove_loop_brk)

lemma tumalloc_loop_break_aligned:
  assumes run: "tumalloc_loop st sz b = Some r" and al: "aligned16 (brk st)"
    and r: "r = Inr (p, st')"
  shows "aligned16 (brk st')"
proof -
  have "aligned16 (brk st) \<longrightarrow> (\<forall>p st'. r = Inr (p, st') \<longrightarrow> aligned16 (brk st'))"
  proof (rule tumalloc_loop.raw_induct [where P = "\<lambda>st sz b r.
      aligned16 (brk st) \<longrightarrow> (\<forall>p st'. r = Inr (p, st') \<longrightarrow> aligned16 (brk st'))", OF _ run])
    fix loop st sz block r
    assume IH: "\<And>st sz b y. loop st sz b = Some y \<Longrightarrow>
        aligned16 (brk st) \<longrightarrow> (\<forall>p st'. y = Inr (p, st') \<longrightarrow> aligned16 (brk st'))"
      and step: "(if block = 0 then
          (case do_alloc st (sz + sizeof_header) of (raw, st1) \<Rightarrow> stamp st1 raw sz)
        else rbind (load64 st (size_of block)) (\<lambda>bsize.
           if sz + sizeof_header \<le> bsize then
             rbind (split st block (ucast (sz + sizeof_header))) (\<lambda>(hdr, st1).
             if hdr = 0
             then rbind (remove_free_block st1 block) (\<lambda>st2. stamp st2 block sz)
             else rbind (remove_free_block st1 hdr) (\<lambda>st2. stamp st2 hdr sz))
           else rbind (load64 st (next_of block)) (\<lambda>bnext. loop st sz bnext))) = Some r"
    show "aligned16 (brk st) \<longrightarrow> (\<forall>p st'. r = Inr (p, st') \<longrightarrow> aligned16 (brk st'))"
    proof (intro impI allI)
      fix p st'
      assume al: "aligned16 (brk st)" and r: "r = Inr (p, st')"
      show "aligned16 (brk st')"
      proof (cases "block = 0")
        case True
        obtain raw st1 where d: "do_alloc st (sz + sizeof_header) = (raw, st1)"
          by (cases "do_alloc st (sz + sizeof_header)")
        with step r True have "stamp st1 raw sz = Ok (p, st')" by simp
        then have "brk st' = brk st1" by (rule stamp_brk)
        with do_alloc_break_aligned [OF al d] show ?thesis by simp
      next
        case False
        with step r obtain bsize where
          body: "(if sz + sizeof_header \<le> bsize then
               rbind (split st block (ucast (sz + sizeof_header))) (\<lambda>(hdr, st1).
               if hdr = 0
               then rbind (remove_free_block st1 block) (\<lambda>st2. stamp st2 block sz)
               else rbind (remove_free_block st1 hdr) (\<lambda>st2. stamp st2 hdr sz))
             else rbind (load64 st (next_of block)) (\<lambda>bnext. loop st sz bnext)) = Ok (p, st')"
          by (auto simp add: rbind_Ok)
        show ?thesis
        proof (cases "sz + sizeof_header \<le> bsize")
          case True
          with body obtain hdr st1 st2 where
            sp: "split st block (ucast (sz + sizeof_header)) = Ok (hdr, st1)"
            and rm: "remove_free_block st1 (if hdr = 0 then block else hdr) = Ok st2"
            and stp: "stamp st2 (if hdr = 0 then block else hdr) sz = Ok (p, st')"
            by (auto simp add: rbind_Ok split: if_splits)
          from split_brk [OF sp] remove_free_block_brk [OF rm] stamp_brk [OF stp] al
          show ?thesis by simp
        next
          case False
          with body obtain bnext where "loop st sz bnext = Ok (p, st')"
            by (auto simp add: rbind_Ok)
          from IH [OF this] al show ?thesis by simp
        qed
      qed
    qed
  qed
  with al r show ?thesis by simp
qed

lemma tumalloc_break_aligned:
  assumes "aligned16 (brk st)" "tumalloc st sz = Ok (p, st')"
  shows "aligned16 (brk st')"
proof (cases "HEAD st = 0")
  case True
  obtain raw st1 where d: "do_alloc st (sz + sizeof_header) = (raw, st1)"
    by (cases "do_alloc st (sz + sizeof_header)")
  note a1 = do_alloc_break_aligned [OF assms(1) d]
  show ?thesis
  proof (cases "raw = 0")
    case True
    with assms(2) \<open>HEAD st = 0\<close> d a1 show ?thesis by (simp add: tumalloc_def)
  next
    case False
    with assms(2) \<open>HEAD st = 0\<close> d have "stamp st1 raw sz = Ok (p, st')"
      by (simp add: tumalloc_def)
    from stamp_brk [OF this] a1 show ?thesis by simp
  qed
next
  case False
  with assms(2) have "tumalloc_loop st sz (HEAD st) = Ok (p, st')"
    by (simp add: tumalloc_def)
  from tumalloc_loop_break_aligned [OF this assms(1)] show ?thesis by simp
qed

lemma tumalloc_aligned:
  assumes "path (mem st) (HEAD st) ns" "list_all aligned16 ns" "aligned16 (brk st)"
    "tumalloc st sz = Ok (p, st')"
  shows "aligned16 p"
proof (cases "HEAD st = 0")
  case True
  obtain raw st1 where d: "do_alloc st (sz + sizeof_header) = (raw, st1)"
    by (cases "do_alloc st (sz + sizeof_header)")
  have r: "raw = 0 \<or> raw = brk st" using d by (rule do_alloc_result)
  show ?thesis
  proof (cases "raw = 0")
    case True
    with assms(4) \<open>HEAD st = 0\<close> d have "p = 0" by (simp add: tumalloc_def)
    then show ?thesis by (simp add: aligned16_0)
  next
    case False
    with assms(4) \<open>HEAD st = 0\<close> d have "stamp st1 raw sz = Ok (p, st')"
      by (simp add: tumalloc_def)
    then have "p = raw + 16" by (rule stamp_result)
    with r False assms(3) show ?thesis by (auto simp add: aligned16_add16)
  qed
next
  case False
  with assms(4) have "tumalloc_loop st sz (HEAD st) = Ok (p, st')"
    by (simp add: tumalloc_def)
  with assms(1-3) show ?thesis by (rule tumalloc_loop_aligned)
qed


lemma fresh_blocks_aligned:
  "rbind (tumalloc heap0 1) (\<lambda>(p, st). rbind (tumalloc st 1) (\<lambda>(q, st'). Ok (p, q)))
     = Ok (0x1010, 0x1030)"
  unfolding heap0_def
  by (simp add: fn_defs loop_simps op_defs mem_simps)

text \<open>
  What \<^verbatim>\<open>turealloc\<close> does with the outcome of its call to \<^verbatim>\<open>tumalloc\<close>: it returns \<open>p\<close> and
  changes nothing when the header records at least \<open>n\<close>; it passes a null on; and it copies
  the old payload into a block that \<^verbatim>\<open>tumalloc\<close> returned apart from the old one.
\<close>

lemma turealloc_outcomes:
  assumes p: "p \<noteq> 0" and n: "n \<noteq> 0"
    and hdr: "load64 st (size_of (p - sizeof_header)) = Ok old"
    and brk: "brk st \<noteq> 0" "unat (brk st) < 2 ^ 64 - 16"
  shows
    "(n \<le> old \<longrightarrow> turealloc st p n = Ok (p, st)) \<and>
     (old < n \<longrightarrow>
        (\<forall>st1. tumalloc st n = Ok (0, st1) \<longrightarrow> turealloc st p n = Ok (0, st)) \<and>
        (\<forall>q st1. q \<noteq> 0 \<and> tumalloc st n = Ok (q, st1) \<and>
             load64 st1 (size_of (p - sizeof_header)) = Ok old \<and>
             (\<forall>i. i < old \<longrightarrow> mem st1 (p + i) = mem st (p + i)) \<and>
             in_heap st1 p (unat old) \<and> in_heap st1 q (unat old) \<and>
             (unat q + unat old \<le> unat p \<or> unat p + unat old \<le> unat q) \<longrightarrow>
           (\<exists>st2. turealloc st p n = Ok (q, st2) \<and>
              (\<forall>i. i < old \<longrightarrow> mem st2 (q + i) = mem st (p + i)) \<and>
              (\<forall>x. \<not> x - q < old \<longrightarrow> mem st2 x = mem st1 x) \<and>
              HEAD st2 = HEAD st1 \<and> brk st2 = brk st1)))"
proof (intro conjI impI allI)
  assume "n \<le> old"
  then show "turealloc st p n = Ok (p, st)"
    using p n hdr by (simp add: turealloc_def)
next
  fix st1
  assume lt: "old < n" and fail: "tumalloc st n = Ok (0, st1)"
  from tumalloc_null [OF brk fail] have "st1 = st" .
  with lt fail show "turealloc st p n = Ok (0, st)"
    using p n hdr by (simp add: turealloc_def not_le [symmetric])
next
  fix q st1
  assume lt: "old < n"
    and h: "q \<noteq> 0 \<and> tumalloc st n = Ok (q, st1) \<and>
             load64 st1 (size_of (p - sizeof_header)) = Ok old \<and>
             (\<forall>i. i < old \<longrightarrow> mem st1 (p + i) = mem st (p + i)) \<and>
             in_heap st1 p (unat old) \<and> in_heap st1 q (unat old) \<and>
             (unat q + unat old \<le> unat p \<or> unat p + unat old \<le> unat q)"
  from h memcpy_spec [of st1 p old q] obtain st2 where
    cp: "memcpy st1 q p old = Ok st2"
    and c1: "\<forall>i. i < old \<longrightarrow> mem st2 (q + i) = mem st1 (p + i)"
    and c2: "\<forall>x. \<not> x - q < old \<longrightarrow> mem st2 x = mem st1 x"
    and c3: "HEAD st2 = HEAD st1" "brk st2 = brk st1"
    by blast
  have "turealloc st p n = Ok (q, st2)"
    using p n hdr lt h cp by (simp add: turealloc_def not_le [symmetric])
  with c1 c2 c3 h show "\<exists>st2. turealloc st p n = Ok (q, st2) \<and>
              (\<forall>i. i < old \<longrightarrow> mem st2 (q + i) = mem st (p + i)) \<and>
              (\<forall>x. \<not> x - q < old \<longrightarrow> mem st2 x = mem st1 x) \<and>
              HEAD st2 = HEAD st1 \<and> brk st2 = brk st1"
    by auto
qed


section \<open>The free list as a chain of nodes\<close>

lemma in_heap_fields:
  assumes "in_heap st n (16 + k)"
  shows "in_heap st n 8" "in_heap st (n + 8) 8" "in_heap st (n + 8) 4"
    "unat (n + 8) = unat n + 8"
proof -
  have top: "unat n + 16 \<le> unat (brk st)" and bot: "unat (heap_start st) \<le> unat n"
    using assms by (simp_all add: in_heap_def)
  show n8: "unat (n + 8) = unat n + 8"
    using top unat_lt64 [of "brk st"] by (simp add: unat_add64)
  show "in_heap st n 8" "in_heap st (n + 8) 8" "in_heap st (n + 8) 4"
    using top bot n8 by (simp_all add: in_heap_def)
qed

lemma load64_in: "in_heap st a 8 \<Longrightarrow> load64 st a = Ok (rd64 (mem st) a)"
  by (simp add: load64_def)

lemma apart_sep:
  assumes "apart a b"
  shows "8 \<le> b - a" "8 \<le> a - b" "8 \<le> b + 8 - a" "8 \<le> a - (b + 8)"
    "8 \<le> b - (a + 8)" "8 \<le> a + 8 - b" "8 \<le> b + 8 - (a + 8)" "8 \<le> a + 8 - (b + 8)"
    "4 \<le> b + 8 - a" "4 \<le> b + 8 - (a + 8)"
  using assms unfolding apart_def by unat_arith+

lemma apart_neq: "apart a b \<Longrightarrow> a \<noteq> b"
  by (auto simp add: apart_def)

lemma field_sep:
  fixes a :: addr
  shows "8 \<le> a + 8 - a" "8 \<le> a - (a + 8)"
  by simp_all

lemma path_frame:
  assumes "path m c ns" "\<forall>n\<in>set ns. rd64 m' (next_of n) = rd64 m (next_of n)"
  shows "path m' c ns"
  using assms by (induction ns arbitrary: c) auto

lemma path_next_in:
  assumes "path m c ns" "n \<in> set ns"
  shows "rd64 m (next_of n) = 0 \<or> rd64 m (next_of n) \<in> set ns"
  using assms
proof (induction ns arbitrary: c)
  case Nil
  then show ?case by simp
next
  case (Cons a ns)
  show ?case
  proof (cases "n = a")
    case True
    with Cons.prems(1) have "path m (rd64 m (next_of n)) ns" by simp
    then show ?thesis by (cases ns) auto
  next
    case False
    with Cons show ?thesis by auto
  qed
qed

lemma find_prev_loop_path:
  assumes "path (mem st) c ns" "list_all (\<lambda>n. in_heap st n 16) ns"
  shows "\<exists>r. find_prev_loop st b c = Ok r \<and>
    (r = 0 \<or> (r \<in> set ns \<and> r + rd64 (mem st) (size_of r) + sizeof_free_block = b))"
  using assms
proof (induction ns arbitrary: c)
  case Nil
  then show ?case by (simp add: find_prev_loop.simps [of st b 0])
next
  case (Cons n ns)
  then have c: "c = n" "n \<noteq> 0" and rest: "path (mem st) (rd64 (mem st) (next_of n)) ns"
    and inh: "in_heap st n (16 + 0)" and more: "list_all (\<lambda>n. in_heap st n 16) ns"
    by simp_all
  note f = in_heap_fields [OF inh]
  from Cons.IH [OF rest more] obtain r where
    r: "find_prev_loop st b (rd64 (mem st) (next_of n)) = Ok r"
      "r = 0 \<or> (r \<in> set ns \<and> r + rd64 (mem st) (size_of r) + sizeof_free_block = b)"
    by blast
  show ?case
    using c f r
    by (subst find_prev_loop.simps) (auto simp add: load64_in size_of_def next_of_def)
qed

lemma find_next_loop_path:
  assumes "path (mem st) c ns" "list_all (\<lambda>n. in_heap st n 16) ns"
  shows "\<exists>r. find_next_loop st e c = Ok r \<and> (r = 0 \<or> (r \<in> set ns \<and> r = e))"
  using assms
proof (induction ns arbitrary: c)
  case Nil
  then show ?case by (simp add: find_next_loop.simps [of st e 0])
next
  case (Cons n ns)
  then have c: "c = n" "n \<noteq> 0" and rest: "path (mem st) (rd64 (mem st) (next_of n)) ns"
    and inh: "in_heap st n (16 + 0)" and more: "list_all (\<lambda>n. in_heap st n 16) ns"
    by simp_all
  note f = in_heap_fields [OF inh]
  from Cons.IH [OF rest more] obtain r where
    r: "find_next_loop st e (rd64 (mem st) (next_of n)) = Ok r"
      "r = 0 \<or> (r \<in> set ns \<and> r = e)"
    by blast
  show ?case
    using c f r
    by (subst find_next_loop.simps) (auto simp add: load64_in size_of_def next_of_def)
qed

lemma in_heap_same:
  "brk st' = brk st \<Longrightarrow> heap_start st' = heap_start st \<Longrightarrow> in_heap st' a k = in_heap st a k"
  by (simp add: in_heap_def)

lemma split_total:
  assumes blk: "in_heap st block (16 + unat S)"
    and S: "rd64 (mem st) (size_of block) = S"
  shows "\<exists>h st'. split st block n = Ok (h, st') \<and> (h = 0 \<or> h = block) \<and>
    HEAD st' = HEAD st \<and> brk st' = brk st \<and> heap_start st' = heap_start st"
proof -
  define K :: "64 word" where "K = scast n + 16"
  note f = in_heap_fields [OF blk]
  have top: "unat block + 16 + unat S \<le> unat (brk st)"
    and bot: "unat (heap_start st) \<le> unat block"
    using blk by (simp_all add: in_heap_def)
  show ?thesis
  proof (cases "S < K")
    case True
    then show ?thesis
      using f S by (simp add: split_def load64_in size_of_def sizeof_free_block_def K_def)
  next
    case False
    then have KS: "unat K \<le> unat S" by (simp add: word_le_nat_alt not_less)
    define nb where "nb = block + scast n + 16"
    have nbK: "nb = block + K" by (simp add: nb_def K_def)
    have nb: "unat nb = unat block + unat K"
      using top KS unat_lt64 [of "brk st"] by (simp add: nbK unat_add64)
    have nb8: "unat (nb + 8) = unat nb + 8"
      using top KS nb unat_lt64 [of "brk st"] by (simp add: unat_add64)
    have st1: "in_heap st nb 8" "in_heap st (nb + 8) 8"
      using top bot KS nb nb8 by (simp_all add: in_heap_def)
    show ?thesis
      using f S False st1
      by (simp add: split_def load64_def store64_def size_of_def next_of_def
          sizeof_free_block_def K_def [symmetric] nb_def [symmetric] in_heap_def)
  qed
qed

lemma tumalloc_head_fit:
  assumes h: "HEAD st \<noteq> 0"
    and blk: "in_heap st (HEAD st) (16 + unat S)"
    and S: "rd64 (mem st) (size_of (HEAD st)) = S"
    and fit: "unat n + 16 \<le> unat S"
  shows "\<exists>st'. tumalloc st n = Ok (HEAD st + sizeof_header, st') \<and> brk st' = brk st"
proof -
  define b where "b = HEAD st"
  note f = in_heap_fields [OF blk [folded b_def]]
  have n16: "unat (n + 16) = unat n + 16"
    using fit unat_lt64 [of S] by (simp add: unat_add64)
  then have le: "n + 16 \<le> S"
    using fit by (simp add: word_le_nat_alt)
  from split_total [OF blk S, of "ucast (n + 16)"] obtain hd st1 where
    sp: "split st b (ucast (n + 16)) = Ok (hd, st1)" and hd: "hd = 0 \<or> hd = b"
    and same: "HEAD st1 = b" "brk st1 = brk st" "heap_start st1 = heap_start st"
    by (auto simp add: b_def)
  have in1: "in_heap st1 a k = in_heap st a k" for a k
    using same by (simp add: in_heap_def)
  have rm: "remove_free_block st1 b = Ok (st1\<lparr>HEAD := rd64 (mem st1) (b + 8)\<rparr>)"
    using same f by (simp add: remove_free_block_def load64_def in1 next_of_def)
  define st2 where "st2 = st1\<lparr>HEAD := rd64 (mem st1) (b + 8)\<rparr>"
  have in2: "in_heap st2 a k = in_heap st a k" for a k
    using same by (simp add: in_heap_def st2_def)
  have "\<exists>st'. stamp st2 b n = Ok (b + 16, st') \<and> brk st' = brk st"
    using f same by (simp add: stamp_def store64_def store32_def in2 in_heap_def size_of_def
        magic_of_def sizeof_header_def st2_def)
  then obtain st' where stp: "stamp st2 b n = Ok (b + 16, st')" "brk st' = brk st"
    by blast
  have "tumalloc_loop st n b = Ok (b + 16, st')"
    using h f S le sp hd rm stp
    by (subst tumalloc_loop.simps)
      (auto simp add: load64_in b_def [symmetric] st2_def [symmetric] sizeof_header_def size_of_def)
  then show ?thesis
    using h stp by (auto simp add: tumalloc_def b_def sizeof_header_def)
qed

lemma coalesce_prev_effect:
  assumes pv: "prev \<noteq> 0 \<Longrightarrow> in_heap st prev (16 + 0)" and bk: "in_heap st b (16 + 0)"
    and nolink: "prev \<noteq> 0 \<Longrightarrow> rd64 (mem st) (next_of prev) \<noteq> b"
  shows "\<exists>b1 st'. coalesce_prev st b prev = Ok (b1, st') \<and>
     ((b1 = b \<and> st' = st) \<or>
      (b1 = prev \<and> prev \<noteq> 0 \<and> (\<exists>X. st' = st\<lparr>mem := wr64 (mem st) prev X\<rparr>)))"
proof (cases "prev = 0")
  case True
  then show ?thesis by (simp add: coalesce_prev_def)
next
  case False
  note fp = in_heap_fields [OF pv [OF False]]
  note fb = in_heap_fields [OF bk]
  show ?thesis
    using False fp fb nolink [OF False]
    by (auto simp add: coalesce_prev_def load64_def store64_def in_heap_def size_of_def
        next_of_def rd64_wr64_other field_sep)
qed

lemma coalesce_next_effect:
  assumes bk: "in_heap st b (16 + 0)" and nx: "nxt \<noteq> 0 \<Longrightarrow> in_heap st nxt (16 + 0)"
  shows "\<exists>st'. coalesce_next st b nxt = Ok st' \<and> HEAD st' = HEAD st \<and> brk st' = brk st \<and>
    heap_start st' = heap_start st \<and>
    (mem st' = mem st \<or>
     (nxt \<noteq> 0 \<and> (\<exists>Y. mem st' = wr64 (wr64 (mem st) b
         (rd64 (mem st) b + (rd64 (mem st) nxt + 16))) (b + 8) Y)))"
proof (cases "nxt = 0")
  case True
  then show ?thesis by (simp add: coalesce_next_def)
next
  case False
  note fn = in_heap_fields [OF nx [OF False]]
  note fb = in_heap_fields [OF bk]
  show ?thesis
    using False fn fb
    by (auto simp add: coalesce_next_def load64_def store64_def in_heap_def size_of_def
        next_of_def sizeof_free_block_def)
qed

section \<open>The claims\<close>

text \<open>
  C1, as stated, fails. In a fresh process, after allocating 16 bytes and releasing them,
  allocating 16 bytes again does not return the released block: \<^verbatim>\<open>tumalloc\<close> wants
  \<^verbatim>\<open>size + sizeof(header) <= block->size\<close>, and the released node records 16. The second call
  returns \<open>0x1030\<close>, not \<open>0x1010\<close>, and moves the program break from \<open>0x1020\<close> to \<open>0x1040\<close>.
\<close>

theorem same_size_not_reused:
  "alloc_free_alloc heap0 16 16 = Ok (0x1010, 0x1030, 0x1020, 0x1040)"
  unfolding alloc_free_alloc_def heap0_def
  by (simp add: fn_defs loop_simps op_defs mem_simps)

text \<open>
  C1, amended. Take a state whose free list is a chain of nodes that ends in null, each
  node lying in the region with the size it records and none meeting the header of the
  block of \<open>p\<close>; the heap does not start at address 0; the header of \<open>p\<close> carries the magic
  number and records \<open>s\<close>, and the block lies in the region. Then \<^verbatim>\<open>tufree(p)\<close> returns, and
  a following \<^verbatim>\<open>tumalloc(s')\<close> with \<open>s' + sizeof(header) \<le> s\<close> returns \<open>p\<close> again and leaves
  the program break where it was.
\<close>

theorem release_then_fit_reuses:
  assumes fl: "path (mem st) (HEAD st) ns"
    and ok: "list_all (node_ok st) ns"
    and ap: "list_all (apart (p - sizeof_header)) ns"
    and hs: "heap_start st \<noteq> 0"
    and hp: "in_heap st (p - sizeof_header) (16 + unat s)"
    and mg: "rd32 (mem st) (magic_of (p - sizeof_header)) = MAGIC"
    and sz: "rd64 (mem st) (size_of (p - sizeof_header)) = s"
    and fit: "unat s' + 16 \<le> unat s"
  shows "\<exists>st2 st3. tufree st p = Ok st2 \<and> tumalloc st2 s' = Ok (p, st3) \<and>
    brk st2 = brk st \<and> brk st3 = brk st"
proof -
  define b where "b = p - 16"
  have pb: "p = b + 16" by (simp add: b_def)
  have hp': "in_heap st b (16 + unat s)"
    using hp by (simp add: b_def sizeof_header_def)
  note fb = in_heap_fields [OF hp']
  have top: "unat b + 16 + unat s \<le> unat (brk st)"
    and bot: "unat (heap_start st) \<le> unat b"
    using hp' by (simp_all add: in_heap_def)
  have b0: "b \<noteq> 0"
  proof
    assume "b = 0"
    with bot have "unat (heap_start st) = 0" by simp
    with hs show False by (simp add: unat_eq_0)
  qed
  have aps: "apart b n" if "n \<in> set ns" for n
    using ap that by (simp add: list_all_iff b_def sizeof_header_def)
  have oks: "in_heap st n (16 + unat (rd64 (mem st) n))" if "n \<in> set ns" for n
    using ok that by (simp add: list_all_iff node_ok_def size_of_def)
  have bnotin: "b \<notin> set ns"
    using aps apart_neq by blast
  define m3 where "m3 = wr64 (wr64 (mem st) b s) (b + 8) (HEAD st)"
  define st3 where "st3 = st\<lparr>mem := m3, HEAD := b\<rparr>"
  have free_eq: "tufree st p = rbind (coalesce st3 b) (\<lambda>(_, st4). Ok st4)"
    using fb mg sz
    by (simp add: tufree_def Let_def b_def [symmetric] load32_def load64_def store64_def
        in_heap_def st3_def m3_def size_of_def next_of_def magic_of_def sizeof_header_def)
  have r3: "rd64 m3 b = s" "rd64 m3 (b + 8) = HEAD st"
    by (simp_all add: m3_def mem_simps field_sep)
  have keep3: "rd64 m3 n = rd64 (mem st) n" "rd64 m3 (n + 8) = rd64 (mem st) (n + 8)"
    if "n \<in> set ns" for n
    using apart_sep [OF aps [OF that]] by (simp_all add: m3_def rd64_wr64_other)
  have in3: "in_heap st3 a k = in_heap st a k" for a k
    by (simp add: st3_def in_heap_def)
  have mem3: "mem st3 = m3" and head3: "HEAD st3 = b"
    and same3: "brk st3 = brk st" "heap_start st3 = heap_start st"
    by (simp_all add: st3_def)
  have "path m3 (HEAD st) ns"
    using fl by (rule path_frame) (simp add: keep3 next_of_def)
  then have p3: "path (mem st3) b (b # ns)"
    using b0 r3 by (simp add: mem3 next_of_def)
  have in16: "in_heap st3 n (16 + 0)" if "n \<in> set ns" for n
    using oks [OF that] by (simp add: in_heap_def same3)
  have inb: "in_heap st3 b (16 + 0)"
    using hp' by (simp add: in_heap_def same3)
  have all3: "list_all (\<lambda>n. in_heap st3 n 16) (b # ns)"
    using in16 inb by (simp add: list_all_iff)
  have s16: "unat (s + 16) = unat s + 16"
    using top unat_lt64 [of "brk st"] by (simp add: unat_add64)
  have "s + 16 \<noteq> 0"
  proof
    assume "s + 16 = 0"
    then have "unat (s + 16) = 0" by simp
    with s16 show False by simp
  qed
  then have notself: "b + s + 16 \<noteq> b"
    by (simp add: add.assoc)
  have bs16: "unat (b + s + 16) = unat b + unat s + 16"
    using top s16 unat_lt64 [of "brk st"] by (simp add: add.assoc unat_add64)
  \<comment> \<open>the two neighbours\<close>
  from find_prev_loop_path [OF p3 all3, of b] obtain prev where
    fp: "find_prev st3 b = Ok prev"
    and prev': "prev = 0 \<or> (prev \<in> set (b # ns) \<and>
        prev + rd64 m3 (size_of prev) + sizeof_free_block = b)"
    by (auto simp add: find_prev_def head3 mem3)
  have "prev \<noteq> b"
  proof
    assume e: "prev = b"
    with prev' b0 have "prev + rd64 m3 (size_of prev) + sizeof_free_block = b" by blast
    then have "b + s + 16 = b"
      unfolding e size_of_def sizeof_free_block_def r3 .
    with notself show False ..
  qed
  with prev' have prev: "prev = 0 \<or> prev \<in> set ns"
    by auto
  from find_next_loop_path [OF p3 all3, of "b + s + 16"] obtain nxt where
    fn: "find_next st3 b = Ok nxt"
    and nxt': "nxt = 0 \<or> (nxt \<in> set (b # ns) \<and> nxt = b + s + 16)"
    using fb r3
    by (auto simp add: find_next_def head3 mem3 load64_def in3 size_of_def
        sizeof_free_block_def)
  have "nxt \<noteq> b"
  proof
    assume e: "nxt = b"
    with nxt' b0 have "nxt = b + s + 16" by blast
    then have "b + s + 16 = b" unfolding e by (rule sym)
    with notself show False ..
  qed
  with nxt' have nxt: "nxt = 0 \<or> (nxt \<in> set ns \<and> nxt = b + s + 16)"
    by auto
  \<comment> \<open>the merge into the previous neighbour\<close>
  have nolink: "rd64 (mem st3) (next_of prev) \<noteq> b" if "prev \<noteq> 0"
  proof -
    from that prev have pin: "prev \<in> set ns" by simp
    from path_next_in [OF fl pin] bnotin b0
    have "rd64 (mem st) (next_of prev) \<noteq> b" by auto
    then show ?thesis using keep3(2) [OF pin] by (simp add: mem3 next_of_def)
  qed
  have "prev \<noteq> 0 \<Longrightarrow> in_heap st3 prev (16 + 0)"
    using prev in16 by auto
  from coalesce_prev_effect [OF this inb nolink] obtain b1 st4 where
    cp: "coalesce_prev st3 b prev = Ok (b1, st4)"
    and st4: "(b1 = b \<and> st4 = st3) \<or>
      (b1 = prev \<and> prev \<noteq> 0 \<and> (\<exists>X. st4 = st3\<lparr>mem := wr64 (mem st3) prev X\<rparr>))"
    by blast
  have same4: "HEAD st4 = b" "brk st4 = brk st" "heap_start st4 = heap_start st"
    using st4 by (auto simp add: st3_def)
  have in4: "in_heap st4 a k = in_heap st3 a k" for a k
    by (simp add: in_heap_def same3 same4)
  have b1: "b1 = b \<or> b1 \<in> set ns"
    using st4 prev by auto
  have inb1: "in_heap st4 b1 (16 + 0)"
    using b1 in16 inb by (auto simp add: in4)
  have innx: "nxt \<noteq> 0 \<Longrightarrow> in_heap st4 nxt (16 + 0)"
    using nxt in16 by (auto simp add: in4)
  \<comment> \<open>the merge of the next neighbour\<close>
  from coalesce_next_effect [OF inb1 innx] obtain st5 where
    cn: "coalesce_next st4 b1 nxt = Ok st5"
    and same5: "HEAD st5 = b" "brk st5 = brk st" "heap_start st5 = heap_start st"
    and mem5: "mem st5 = mem st4 \<or>
     (nxt \<noteq> 0 \<and> (\<exists>Y. mem st5 = wr64 (wr64 (mem st4) b1
         (rd64 (mem st4) b1 + (rd64 (mem st4) nxt + 16))) (b1 + 8) Y))"
    using same4 by auto
  have coal: "coalesce st3 b = Ok (b1, st5)"
    using b0 fp fn cp cn by (simp add: coalesce_def)
  then have fr: "tufree st p = Ok st5"
    by (simp add: free_eq)
  \<comment> \<open>the size of the released block afterwards\<close>
  have "\<exists>S'. rd64 (mem st5) b = S' \<and> unat s \<le> unat S' \<and>
      unat b + 16 + unat S' \<le> unat (brk st)"
  proof (cases "b1 = b")
    case True
    with st4 b0 prev bnotin have e4: "st4 = st3" by auto
    from mem5 show ?thesis
    proof
      assume "mem st5 = mem st4"
      then show ?thesis using e4 r3 top by (simp add: mem3)
    next
      assume "nxt \<noteq> 0 \<and> (\<exists>Y. mem st5 = wr64 (wr64 (mem st4) b1
         (rd64 (mem st4) b1 + (rd64 (mem st4) nxt + 16))) (b1 + 8) Y)"
      then obtain Y where n0: "nxt \<noteq> 0"
        and m5: "mem st5 = wr64 (wr64 m3 b (s + (rd64 m3 nxt + 16))) (b + 8) Y"
        using True e4 r3 by (auto simp add: mem3)
      from n0 nxt have nin: "nxt \<in> set ns" and nx: "nxt = b + s + 16" by auto
      define nsz where "nsz = rd64 (mem st) nxt"
      have nsz: "rd64 m3 nxt = nsz" using keep3(1) [OF nin] by (simp add: nsz_def)
      have ntop: "unat b + unat s + 16 + 16 + unat nsz \<le> unat (brk st)"
        using oks [OF nin] bs16 by (simp add: in_heap_def nx nsz_def)
      have n16: "unat (nsz + 16) = unat nsz + 16"
        using ntop unat_lt64 [of "brk st"] by (simp add: unat_add64)
      have tot: "unat (s + (nsz + 16)) = unat s + unat nsz + 16"
        using ntop n16 unat_lt64 [of "brk st"] by (simp add: unat_add64)
      have "rd64 (mem st5) b = s + (nsz + 16)"
        by (simp add: m5 nsz rd64_wr64_other rd64_wr64_same field_sep)
      then show ?thesis using tot ntop by simp
    qed
  next
    case False
    with st4 obtain X where pn: "b1 = prev" "prev \<noteq> 0"
      and e4: "st4 = st3\<lparr>mem := wr64 m3 prev X\<rparr>"
      by (auto simp add: mem3)
    from pn prev have pin: "prev \<in> set ns" by simp
    note sp = apart_sep [OF aps [OF pin]]
    have "rd64 (mem st4) b = s"
      using sp r3 by (simp add: e4 rd64_wr64_other)
    moreover have "rd64 (mem st5) b = rd64 (mem st4) b"
      using mem5 sp pn by (auto simp add: rd64_wr64_other)
    ultimately show ?thesis using top by simp
  qed
  then obtain S' where S': "rd64 (mem st5) b = S'" "unat s \<le> unat S'"
    "unat b + 16 + unat S' \<le> unat (brk st)"
    by blast
  have "in_heap st5 (HEAD st5) (16 + unat S')"
    using S' bot same5 by (simp add: in_heap_def)
  moreover have "rd64 (mem st5) (size_of (HEAD st5)) = S'"
    using S' same5 by (simp add: size_of_def)
  moreover have "HEAD st5 \<noteq> 0" using same5 b0 by simp
  moreover have "unat s' + 16 \<le> unat S'" using fit S' by simp
  ultimately obtain st6 where "tumalloc st5 s' = Ok (HEAD st5 + sizeof_header, st6)"
    "brk st6 = brk st5"
    using tumalloc_head_fit [of st5 S' s'] by blast
  then have "tumalloc st5 s' = Ok (p, st6)" "brk st6 = brk st"
    using same5 by (simp_all add: pb sizeof_header_def)
  with fr same5 show ?thesis by blast
qed

text \<open>
  The block of 64 bytes at \<open>0x1010\<close>, with the free node \<open>0x1050\<close> behind it: released and
  followed by a request of 48 bytes, it is returned again and the break stays at \<open>0x10A0\<close>.
\<close>

theorem release_then_fit_reuses_witness:
  "path (mem heap_a64_f64) (HEAD heap_a64_f64) [0x1050] \<and>
   list_all (node_ok heap_a64_f64) [0x1050] \<and>
   list_all (apart (0x1010 - sizeof_header)) [0x1050] \<and>
   heap_start heap_a64_f64 \<noteq> 0 \<and>
   in_heap heap_a64_f64 (0x1010 - sizeof_header) (16 + unat (64 :: 64 word)) \<and>
   rd32 (mem heap_a64_f64) (magic_of (0x1010 - sizeof_header)) = MAGIC \<and>
   rd64 (mem heap_a64_f64) (size_of (0x1010 - sizeof_header)) = 64 \<and>
   unat (48 :: 64 word) + 16 \<le> unat (64 :: 64 word) \<and>
   (\<exists>st2 st3. tufree heap_a64_f64 0x1010 = Ok st2 \<and> tumalloc st2 48 = Ok (0x1010, st3) \<and>
      brk st2 = 0x10A0 \<and> brk st3 = 0x10A0)"
proof -
  have h: "path (mem heap_a64_f64) (HEAD heap_a64_f64) [0x1050]"
    "list_all (node_ok heap_a64_f64) [0x1050]"
    "list_all (apart (0x1010 - sizeof_header)) [0x1050]"
    "heap_start heap_a64_f64 \<noteq> 0"
    "in_heap heap_a64_f64 (0x1010 - sizeof_header) (16 + unat (64 :: 64 word))"
    "rd32 (mem heap_a64_f64) (magic_of (0x1010 - sizeof_header)) = MAGIC"
    "rd64 (mem heap_a64_f64) (size_of (0x1010 - sizeof_header)) = 64"
    "unat (48 :: 64 word) + 16 \<le> unat (64 :: 64 word)"
    by (simp_all add: heap_a64_f64_def heap_a64_def node_ok_def apart_def op_defs mem_simps)
  from release_then_fit_reuses [OF h]
  have "\<exists>st2 st3. tufree heap_a64_f64 0x1010 = Ok st2 \<and> tumalloc st2 48 = Ok (0x1010, st3) \<and>
      brk st2 = 0x10A0 \<and> brk st3 = 0x10A0"
    by (simp add: heap_a64_f64_def)
  with h show ?thesis by simp
qed

text \<open>
  C2: the code loses the remainder. In a fresh process, allocate 64 bytes, release them and
  allocate 16: \<^verbatim>\<open>split\<close> succeeds and writes the remainder node at \<open>0x1030\<close> with size 16,
  but nothing links to it; \<^verbatim>\<open>remove_free_block\<close> sets \<^verbatim>\<open>HEAD\<close> to the old successor, here
  null, and the free list is empty when \<^verbatim>\<open>tumalloc\<close> returns \<open>0x1010\<close>.
\<close>

theorem split_remainder_unreachable:
  "alloc_free_alloc_list heap0 64 16 [] 0x1030 = Ok (0x1010, 0, True, 16)"
  unfolding alloc_free_alloc_list_def heap0_def
  by (simp add: fn_defs loop_simps op_defs mem_simps)

text \<open>
  C3: on the path of lines 205-210 the result of \<^verbatim>\<open>do_alloc\<close> is not checked. With the
  region exhausted and a free list whose only block is too small, \<^verbatim>\<open>tumalloc\<close> writes the
  header through the null pointer: the run stops with a fault at address 0 instead of
  returning null.
\<close>

theorem nofit_failure_null_deref:
  "alloc_free_alloc heap_full 16 16 = Fault (SegFault 0)"
  unfolding alloc_free_alloc_def heap_full_def heap0_def
  by (simp add: fn_defs loop_simps op_defs mem_simps)

text \<open>
  C4: \<^verbatim>\<open>tumalloc(0)\<close> does not return null. The test \<^verbatim>\<open>size <= 0\<close> is in \<^verbatim>\<open>do_alloc\<close>, which
  receives \<^verbatim>\<open>size + sizeof(header)\<close>, that is 16: in a fresh process the call returns
  \<open>0x1010\<close>.
\<close>

theorem tumalloc_zero_not_null:
  "ptr_of (tumalloc heap0 0) = Ok 0x1010"
  unfolding ptr_of_def heap0_def
  by (simp add: fn_defs loop_simps op_defs mem_simps)

text \<open>
  C5: two blocks of 16 bytes allocated back to back at \<open>0x1010\<close> and \<open>0x1030\<close>, released
  in that order. \<^verbatim>\<open>coalesce\<close> adds the second block to the first, whose size becomes 48, but
  the second block stays at the head of the list with its size 16: the free list has the
  two entries \<open>0x1020\<close> and \<open>0x1000\<close>, not one.
\<close>

theorem adjacent_release_two_entries:
  "alloc2_free2 heap0 16 16 True [0x1020, 0x1000] = Ok (0x1010, 0x1030, True, 48, 16)"
  unfolding alloc2_free2_def heap0_def
  by (simp add: fn_defs loop_simps op_defs mem_simps)

text \<open>
  Released in the other order, the two blocks do become one entry of size 48: the merge
  with the next neighbour splices it out of the list.
\<close>

lemma adjacent_release_other_order:
  "alloc2_free2 heap0 16 16 False [0x1000] = Ok (0x1010, 0x1030, True, 48, 16)"
  unfolding alloc2_free2_def heap0_def
  by (simp add: fn_defs loop_simps op_defs mem_simps)

text \<open>
  C6: the code rounds every request so that the addresses it returns are multiples of 16,
  but the defect of C5 undoes it. In a fresh process, two blocks of 64 and 16 bytes are
  allocated at \<open>0x1010\<close> and \<open>0x1060\<close> and released in that order: the node of the second
  block stays in the free list inside the merged block. \<^verbatim>\<open>tumalloc(80)\<close> returns the merged
  block, \<open>0x1010\<close>, and the caller, writing into its own 80 bytes, overwrites the successor
  link of that node, at offset 72, with the address \<open>0x1011\<close> of a word 48 it wrote at
  offset 1. \<^verbatim>\<open>tumalloc(32)\<close> then follows the link, finds a block of size 48 at \<open>0x1011\<close> and
  returns \<open>0x1021\<close>, which is not a multiple of 16.
\<close>

theorem forged_node_unaligned:
  "overlap_forge heap0 = Ok (0x1010, 0x1060, 0x1010, 0x1021, False)"
  unfolding overlap_forge_def heap0_def
  by (simp add: fn_defs loop_simps op_defs mem_simps aligned16_def)

text \<open>
  C7: \<^verbatim>\<open>split\<close> on a free block whose node and \<open>S\<close> bytes lie in the region, for a
  first-piece size \<open>n\<close> that is not negative. It fails, returning null and leaving the state
  as it was, when \<open>S < n + sizeof(free_block)\<close>. Otherwise it returns the block, whose size is
  now \<open>n\<close> and whose successor link is untouched, and the node that follows the first piece
  has size \<open>S - n - sizeof(free_block)\<close> and the block's old successor as its link.
\<close>

theorem split_spec:
  assumes blk: "in_heap st block (16 + unat S)"
    and S: "rd64 (mem st) (size_of block) = S"
    and n: "0 \<le> sint n"
  shows "(unat S < nat (sint n) + 16 \<longrightarrow> split st block n = Ok (0, st)) \<and>
    (nat (sint n) + 16 \<le> unat S \<longrightarrow>
      (\<exists>st'. split st block n = Ok (block, st') \<and>
        rd64 (mem st') (size_of block) = scast n \<and>
        rd64 (mem st') (next_of block) = rd64 (mem st) (next_of block) \<and>
        rd64 (mem st') (size_of (block + scast n + sizeof_free_block))
          = S - scast n - sizeof_free_block \<and>
        rd64 (mem st') (next_of (block + scast n + sizeof_free_block))
          = rd64 (mem st) (next_of block) \<and>
        HEAD st' = HEAD st \<and> brk st' = brk st))"
proof -
  define k :: "64 word" where "k = scast n"
  have k: "unat k = nat (sint n)" and kb: "unat k < 2147483648"
    using scast_nonneg [OF n] by (simp_all add: k_def)
  have k16: "unat (k + 16) = unat k + 16"
    using kb by (simp add: unat_add64)
  have lt: "S < k + 16 \<longleftrightarrow> unat S < nat (sint n) + 16"
    by (simp add: word_less_nat_alt k16 k)
  have top: "unat block + 16 + unat S \<le> unat (brk st)"
    and bot: "unat (heap_start st) \<le> unat block"
    using blk by (simp_all add: in_heap_def)
  have b8: "unat (block + 8) = unat block + 8"
    using top unat_lt64 [of "brk st"] by (simp add: unat_add64)
  have ld: "in_heap st block 8" "in_heap st (block + 8) 8"
    using top bot b8 by (simp_all add: in_heap_def)
  show ?thesis
  proof (intro conjI impI)
    assume "unat S < nat (sint n) + 16"
    then show "split st block n = Ok (0, st)"
      using ld S lt by (simp add: split_def load64_def size_of_def sizeof_free_block_def k_def)
  next
    assume ge: "nat (sint n) + 16 \<le> unat S"
    define nb where "nb = block + k + 16"
    have bk: "unat (block + k) = unat block + unat k"
      using top ge k unat_lt64 [of "brk st"] by (simp add: unat_add64)
    have nb: "unat nb = unat block + unat k + 16"
      using top ge k bk unat_lt64 [of "brk st"] by (simp add: nb_def unat_add64)
    have nb8: "unat (nb + 8) = unat block + unat k + 24"
      using top ge k nb unat_lt64 [of "brk st"] by (simp add: unat_add64)
    have st1: "in_heap st nb 8" "in_heap st (nb + 8) 8"
      using top bot ge k nb nb8 by (simp_all add: in_heap_def)
    have lim: "unat nb + 16 \<le> 18446744073709551616"
      using top ge k nb unat_lt64 [of "brk st"] by simp
    note d = sepI [of "block + 8" 8 nb 8] sepI [of "block + 8" 8 "nb + 8" 8]
      sepI [of block 8 nb 8] sepI [of block 8 "nb + 8" 8] sepI [of nb 8 "nb + 8" 8]
      sepI [of block 8 "block + 8" 8]
    have d1: "8 \<le> block + 8 - nb" "8 \<le> nb - (block + 8)"
      "8 \<le> block + 8 - (nb + 8)" "8 \<le> nb + 8 - (block + 8)"
      "8 \<le> nb - block" "8 \<le> block - nb"
      "8 \<le> nb + 8 - block" "8 \<le> block - (nb + 8)"
      "8 \<le> nb + 8 - nb" "8 \<le> nb - (nb + 8)"
      "8 \<le> block + 8 - block" "8 \<le> block - (block + 8)"
      using nb nb8 b8 lim by (simp_all add: d)
    have "\<exists>st'. split st block n = Ok (block, st') \<and>
        rd64 (mem st') (size_of block) = k \<and>
        rd64 (mem st') (next_of block) = rd64 (mem st) (next_of block) \<and>
        rd64 (mem st') (size_of nb) = S - k - 16 \<and>
        rd64 (mem st') (next_of nb) = rd64 (mem st) (next_of block) \<and>
        HEAD st' = HEAD st \<and> brk st' = brk st"
      using ld S lt ge st1 d1
      by (simp add: split_def load64_def store64_def size_of_def next_of_def
          sizeof_free_block_def k_def [symmetric] nb_def [symmetric] in_heap_def mem_simps)
    then show "\<exists>st'. split st block n = Ok (block, st') \<and>
        rd64 (mem st') (size_of block) = scast n \<and>
        rd64 (mem st') (next_of block) = rd64 (mem st) (next_of block) \<and>
        rd64 (mem st') (size_of (block + scast n + sizeof_free_block))
          = S - scast n - sizeof_free_block \<and>
        rd64 (mem st') (next_of (block + scast n + sizeof_free_block))
          = rd64 (mem st) (next_of block) \<and>
        HEAD st' = HEAD st \<and> brk st' = brk st"
      by (simp add: k_def nb_def sizeof_free_block_def)
  qed
qed

text \<open>
  The free block of 64 bytes at \<open>0x1000\<close>: a first piece of 32 bytes leaves a node of 16
  bytes at \<open>0x1030\<close>; a first piece of 64 bytes does not fit.
\<close>

theorem split_spec_witness:
  "in_heap heap_f64 0x1000 (16 + unat (64 :: 64 word)) \<and>
   rd64 (mem heap_f64) (size_of 0x1000) = 64 \<and> 0 \<le> sint (32 :: 32 word) \<and>
   nat (sint (32 :: 32 word)) + 16 \<le> unat (64 :: 64 word) \<and>
   (\<exists>st'. split heap_f64 0x1000 32 = Ok (0x1000, st') \<and>
      rd64 (mem st') (size_of 0x1000) = 32 \<and> rd64 (mem st') (next_of 0x1000) = 0 \<and>
      rd64 (mem st') (size_of 0x1030) = 16 \<and> rd64 (mem st') (next_of 0x1030) = 0) \<and>
   unat (64 :: 64 word) < nat (sint (64 :: 32 word)) + 16 \<and>
   split heap_f64 0x1000 64 = Ok (0, heap_f64)"
proof -
  have h: "in_heap heap_f64 0x1000 (16 + unat (64 :: 64 word))"
    "rd64 (mem heap_f64) (size_of 0x1000) = 64"
    "rd64 (mem heap_f64) (next_of 0x1000) = 0"
    by (simp_all add: heap_f64_def heap_a64_def op_defs mem_simps)
  have n: "0 \<le> sint (32 :: 32 word)" "0 \<le> sint (64 :: 32 word)"
    by simp_all
  show ?thesis
    using h n split_spec [OF h(1) h(2) n(1)] split_spec [OF h(1) h(2) n(2)]
    by (auto simp add: sizeof_free_block_def)
qed

text \<open>
  C8: when the allocation inside \<^verbatim>\<open>turealloc\<close> fails, the call does not always return null.
  In a process whose region holds two blocks of 16 bytes and nothing more, the first block
  is released and the second, at \<open>0x1030\<close>, resized to 64 bytes: the free list is not empty
  and holds no block large enough, \<^verbatim>\<open>sbrk\<close> fails, and \<^verbatim>\<open>tumalloc\<close> writes the header through
  the null pointer (lines 205-210, the defect of C3). The run stops with a fault at
  address 0.
\<close>

theorem resize_failure_null_deref:
  "alloc2_free_resize heap_two 16 16 64 = Fault (SegFault 0)"
  unfolding alloc2_free_resize_def heap_two_def heap0_def
  by (simp add: turealloc_def fn_defs loop_simps op_defs mem_simps)

text \<open>
  The copy can also miss the original payload, through the defect of C5. Two blocks of 64
  bytes at \<open>0x1010\<close> and \<open>0x1060\<close> are released, the lower one first; the block at \<open>0x1060\<close>
  is allocated again for 48 bytes and its first word set to \<open>0xAAAA\<close>. Resizing it to 64
  bytes takes the merged block at \<open>0x1010\<close>, whose split writes a node over the start of the
  payload before it is copied: the first word of the new block is 48.
\<close>

lemma resize_copies_clobbered_payload:
  "overlap_resize heap0 0xAAAA = Ok (0x1060, 0x1010, 48)"
  unfolding overlap_resize_def heap0_def
  by (simp add: turealloc_def memcpy_def fn_defs loop_simps op_defs mem_simps rd64_copy_first)

text \<open>
  C9: \<^verbatim>\<open>turealloc(NULL, s)\<close> is \<^verbatim>\<open>tumalloc(s)\<close>, and for a pointer that is not null
  \<^verbatim>\<open>turealloc(p, 0)\<close> is \<^verbatim>\<open>tufree(p)\<close> followed by the return of null: the same result, the
  same state, the same fault.
\<close>

theorem turealloc_delegates:
  "turealloc st 0 s = tumalloc st s \<and>
   (p \<noteq> 0 \<longrightarrow> turealloc st p 0 = rbind (tufree st p) (\<lambda>st'. Ok (0, st')))"
  by (simp add: turealloc_def)

theorem turealloc_delegates_witness:
  "turealloc heap0 0 64 = tumalloc heap0 64 \<and> (0x1010 :: addr) \<noteq> 0 \<and>
   turealloc heap_a64 0x1010 0 = Ok (0, heap_f64)"
  using turealloc_delegates [of heap0 64 0] turealloc_delegates [of heap_a64 0 "0x1010"]
  by (simp add: heap_f64_reached)

text \<open>
  C10: \<^verbatim>\<open>tufree\<close> has no test for null. \<^verbatim>\<open>tufree(NULL)\<close> reads \<^verbatim>\<open>hdr->magic\<close> at
  \<open>NULL - sizeof(header) + 8\<close>, the address \<open>0xFFFFFFFFFFFFFFF8\<close>, which is outside the
  region as long as the program break is not among the last four addresses: the call does
  not return, it stops with a fault on that read.
\<close>

theorem tufree_null_faults:
  assumes "unat (brk st) < 2 ^ 64 - 4"
  shows "tufree st 0 = Fault (SegFault (magic_of (0 - sizeof_header)))"
  using assms by (simp add: tufree_def op_defs)

theorem tufree_null_faults_witness:
  "unat (brk heap0) < 2 ^ 64 - 4 \<and> tufree heap0 0 = Fault (SegFault 0xFFFFFFFFFFFFFFF8)"
  using tufree_null_faults [of heap0] by (simp add: heap0_def op_defs)

end
